theory Spec2Isabelle
  imports Main
begin

section \<open>Error numbers\<close>

text \<open>
  The C code reports errors through \<open>errno\<close>, a per-thread integer that is 0 when no
  error is recorded. The values are those of Linux's \<open>errno.h\<close>.
\<close>

type_synonym errno = nat

definition EAGAIN :: errno where "EAGAIN = 11"
definition ENOMEM :: errno where "ENOMEM = 12"
definition EINVAL :: errno where "EINVAL = 22"
definition ENODATA :: errno where "ENODATA = 61"
definition ENOENT :: errno where "ENOENT = 2"

section \<open>URI parser (\<open>src/uri.c\<close>)\<close>

text \<open>
  The parser works in place on a mutable, NUL-terminated buffer. The buffer is the list of
  its bytes, terminator included; a \<open>char *\<close> into it is an index, and a NULL pointer is
  \<open>None\<close>. Reading at or past the end of the list gives NUL, so that every read of the
  model is defined; a NUL-terminated buffer is never read past its terminator by the code.
\<close>

type_synonym buffer = "char list"
type_synonym charp = nat

definition NUL :: char where
  "NUL = CHR 0x00"

definition cbuf :: "string \<Rightarrow> buffer" where
  "cbuf s = s @ [NUL]"

definition peek :: "buffer \<Rightarrow> charp \<Rightarrow> char" where
  "peek buf p = (if p < length buf then buf ! p else NUL)"

definition poke :: "buffer \<Rightarrow> charp \<Rightarrow> char \<Rightarrow> buffer" where
  "poke buf p c = buf[p := c]"

text \<open>The C string that starts at a pointer: the bytes up to the first NUL.\<close>

definition cstring :: "buffer \<Rightarrow> charp \<Rightarrow> string" where
  "cstring buf p = takeWhile (\<lambda>c. c \<noteq> NUL) (drop p buf)"

text \<open>\<open>ctype.h\<close> in the C locale.\<close>

definition isalpha :: "char \<Rightarrow> bool" where
  "isalpha c = (let n = (of_char c :: nat) in (65 \<le> n \<and> n \<le> 90) \<or> (97 \<le> n \<and> n \<le> 122))"

definition isdigit :: "char \<Rightarrow> bool" where
  "isdigit c = (let n = (of_char c :: nat) in 48 \<le> n \<and> n \<le> 57)"

definition isalnum :: "char \<Rightarrow> bool" where
  "isalnum c = (isalpha c \<or> isdigit c)"

text \<open>\<open>string.h\<close>: first and last occurrence of a byte in a C string.\<close>

fun first_index :: "char \<Rightarrow> string \<Rightarrow> nat option" where
  "first_index c [] = None"
| "first_index c (x # xs) =
     (if x = c then Some 0 else map_option Suc (first_index c xs))"

fun last_index :: "char \<Rightarrow> string \<Rightarrow> nat option" where
  "last_index c [] = None"
| "last_index c (x # xs) =
     (case last_index c xs of
        Some i \<Rightarrow> Some (Suc i)
      | None \<Rightarrow> if x = c then Some 0 else None)"

definition strchr :: "buffer \<Rightarrow> charp \<Rightarrow> char \<Rightarrow> charp option" where
  "strchr buf p c = map_option (\<lambda>i. p + i) (first_index c (cstring buf p))"

definition strrchr :: "buffer \<Rightarrow> charp \<Rightarrow> char \<Rightarrow> charp option" where
  "strrchr buf p c = map_option (\<lambda>i. p + i) (last_index c (cstring buf p))"

definition strchrnul :: "buffer \<Rightarrow> charp \<Rightarrow> char \<Rightarrow> charp" where
  "strchrnul buf p c =
     (case first_index c (cstring buf p) of
        Some i \<Rightarrow> p + i
      | None \<Rightarrow> p + length (cstring buf p))"

text \<open>\<open>memmove(dst, src, n)\<close> and \<open>memset(dst, c, n)\<close> inside the buffer.\<close>

definition memmove :: "buffer \<Rightarrow> charp \<Rightarrow> charp \<Rightarrow> nat \<Rightarrow> buffer" where
  "memmove buf dst src n = take dst buf @ take n (drop src buf) @ drop (dst + n) buf"

definition memset :: "buffer \<Rightarrow> charp \<Rightarrow> char \<Rightarrow> nat \<Rightarrow> buffer" where
  "memset buf dst c n = take dst buf @ replicate n c @ drop (dst + n) buf"

record rbh_raw_uri =
  scheme :: "charp option"
  userinfo :: "charp option"
  host :: "charp option"
  port :: "charp option"
  path :: "charp option"
  query :: "charp option"
  fragment :: "charp option"

definition zero_uri :: rbh_raw_uri where
  "zero_uri = \<lparr>scheme = None, userinfo = None, host = None, port = None,
               path = None, query = None, fragment = None\<rparr>"

text \<open>
  The \<open>do { string++; } while (...)\<close> loop that scans the scheme: called on the index
  after the increment, it returns the index of the first byte that cannot continue a scheme.
\<close>

definition scheme_char :: "char \<Rightarrow> bool" where
  "scheme_char c = (isalnum c \<or> c = CHR ''+'' \<or> c = CHR ''-'' \<or> c = CHR ''.'')"

function scan_scheme :: "buffer \<Rightarrow> charp \<Rightarrow> charp" where
  "scan_scheme buf p =
     (if p < length buf \<and> scheme_char (buf ! p) then scan_scheme buf (Suc p) else p)"
  by pat_completeness auto
termination
  by (relation "measure (\<lambda>(buf, p). length buf - p)") auto

text \<open>
  \<open>*p++ = '\0'\<close> on an optional pointer: the separator is overwritten with a terminator
  and the component starts one byte later.
\<close>

definition cut :: "buffer \<Rightarrow> charp option \<Rightarrow> buffer \<times> charp option" where
  "cut buf q = (case q of None \<Rightarrow> (buf, None) | Some p \<Rightarrow> (poke buf p NUL, Some (Suc p)))"

definition rbh_parse_raw_uri :: "buffer \<Rightarrow> errno + (rbh_raw_uri \<times> buffer)" where
  "rbh_parse_raw_uri buf0 =
     (if \<not> isalpha (peek buf0 0) then Inl EINVAL
      else
        let uri = zero_uri\<lparr>scheme := Some 0\<rparr>;
            colon = scan_scheme buf0 1
        in if peek buf0 colon \<noteq> CHR '':'' then Inl EINVAL
        else
          let buf1 = poke buf0 colon NUL;
              string = Suc colon;
              (buf2, frag) = cut buf1 (strrchr buf1 string (CHR ''#''));
              uri = uri\<lparr>fragment := frag\<rparr>;
              (buf3, qry) = cut buf2 (strrchr buf2 string (CHR ''?''));
              uri = uri\<lparr>query := qry\<rparr>
          in if peek buf3 string \<noteq> CHR ''/'' \<or> peek buf3 (string + 1) \<noteq> CHR ''/''
             then Inr (uri\<lparr>path := Some string\<rparr>, buf3)
             else
               let pth = strchrnul buf3 (string + 2) (CHR ''/'');
                   uri = uri\<lparr>path := Some pth\<rparr>
               in if pth = string + 2 then Inr (uri, buf3)
                  else
                    let buf4 = memmove buf3 string (string + 2) (pth - string - 2);
                        buf5 = memset buf4 (pth - 2) NUL 2;
                        at = strchr buf5 string (CHR ''@'');
                        (buf6, uri, string) =
                          (case at of
                             None \<Rightarrow> (buf5, uri, string)
                           | Some a \<Rightarrow> (poke buf5 a NUL, uri\<lparr>userinfo := Some string\<rparr>, Suc a));
                        (buf7, prt) = cut buf6 (strrchr buf6 string (CHR '':''));
                        uri = uri\<lparr>port := prt\<rparr>;
                        uri = uri\<lparr>host := (if peek buf7 string = NUL then None else Some string)\<rparr>
                    in Inr (uri, buf7))"

text \<open>What a caller reads through the seven pointers of a parsed URI.\<close>

record uri_components =
  scheme_str :: "string option"
  userinfo_str :: "string option"
  host_str :: "string option"
  port_str :: "string option"
  path_str :: "string option"
  query_str :: "string option"
  fragment_str :: "string option"

definition read_uri :: "rbh_raw_uri \<times> buffer \<Rightarrow> uri_components" where
  "read_uri r =
     (case r of (uri, buf) \<Rightarrow>
        \<lparr>scheme_str = map_option (cstring buf) (scheme uri),
         userinfo_str = map_option (cstring buf) (userinfo uri),
         host_str = map_option (cstring buf) (host uri),
         port_str = map_option (cstring buf) (port uri),
         path_str = map_option (cstring buf) (path uri),
         query_str = map_option (cstring buf) (query uri),
         fragment_str = map_option (cstring buf) (fragment uri)\<rparr>)"

section \<open>Iterators (\<open>src/itertools.c\<close>)\<close>

text \<open>
  An iterator yields \<open>const void *\<close> pointers. A pointer to an element is \<open>Some\<close> of that
  element and the NULL pointer is \<open>None\<close>. \<open>rbh_iter_next(it)\<close> dispatches to
  \<open>it->ops->next(it)\<close>; in the model the operation of the underlying iterator is passed
  as a function from the iterator's state and \<open>errno\<close> to the returned pointer, the new
  state and the new \<open>errno\<close>.
\<close>

type_synonym ('s, 'a) iter_next = "'s \<Rightarrow> errno \<Rightarrow> 'a option \<times> 's \<times> errno"

subsection \<open>\<open>rbh_iter_array\<close>\<close>

text \<open>
  \<open>arr_array\<close> is the region the iterator walks, as the list of its elements;
  \<open>array + size * index\<close> is the pointer to the element at \<open>index\<close>.
\<close>

record 'a array_iterator =
  arr_array :: "'a list"
  arr_size :: nat
  arr_count :: nat
  arr_index :: nat

definition array_iter_next :: "('a array_iterator, 'a) iter_next" where
  "array_iter_next array errno =
     (if arr_index array < arr_count array
      then (Some (arr_array array ! arr_index array),
            array\<lparr>arr_index := arr_index array + 1\<rparr>, errno)
      else (None, array, ENODATA))"

definition rbh_iter_array :: "bool \<Rightarrow> 'a list \<Rightarrow> nat \<Rightarrow> 'a array_iterator option" where
  "rbh_iter_array malloc_ok array element_size =
     (if \<not> malloc_ok then None
      else Some \<lparr>arr_array = array, arr_size = element_size,
                 arr_count = length array, arr_index = 0\<rparr>)"

subsection \<open>Finite streams\<close>

text \<open>
  Every combinator of this file, and the backend's event loop, clears \<open>errno\<close> before it
  calls the \<open>next\<close> of the iterator below it. \<open>yields next s xs\<close> says that, called so
  from state \<open>s\<close>, that iterator hands out \<open>xs\<close> in order, leaving \<open>errno\<close> clear, and
  then stays at its end, where it returns NULL with \<open>ENODATA\<close>.
\<close>

fun yields :: "('s, 'a) iter_next \<Rightarrow> 's \<Rightarrow> 'a list \<Rightarrow> bool" where
  "yields subiter_next s [] = (subiter_next s 0 = (None, s, ENODATA))"
| "yields subiter_next s (x # xs) =
     (case subiter_next s 0 of
        (Some y, s', errno) \<Rightarrow> y = x \<and> errno = 0 \<and> yields subiter_next s' xs
      | (None, _) \<Rightarrow> False)"

subsection \<open>\<open>rbh_iter_chunkify\<close>\<close>

text \<open>
  A chunk iterator and the chunkify iterator that made it point to the same underlying
  iterator (\<open>subiter\<close>). The state of that shared iterator is passed to and returned by
  every operation, so that each of them sees what the others did to it.
\<close>

record 'a chunk_iterator =
  chunk_first :: "'a option"
  chunk_count :: nat
  chunk_once :: bool

definition SIZE_MAX :: nat where
  "SIZE_MAX = 2 ^ 64 - 1"

definition chunk_iter_next ::
  "('s, 'a) iter_next \<Rightarrow> 'a chunk_iterator \<Rightarrow> 's \<Rightarrow> errno \<Rightarrow>
     'a option \<times> 'a chunk_iterator \<times> 's \<times> errno" where
  "chunk_iter_next subiter_next chunk subiter errno =
     (if \<not> chunk_once chunk
      then (chunk_first chunk, chunk\<lparr>chunk_once := True\<rparr>, subiter, errno)
      else if chunk_count chunk = 0
      then (None, chunk, subiter, ENODATA)
      else
        let save_errno = errno;
            (next, subiter', errno') = subiter_next subiter 0;
            chunk' = (if next \<noteq> None \<or> errno' = 0
                      then chunk\<lparr>chunk_count := chunk_count chunk - 1\<rparr> else chunk)
        in (next, chunk', subiter', if errno' \<noteq> 0 then errno' else save_errno))"

text \<open>\<open>chunkify->chunk - 1\<close> on a \<open>size_t\<close>.\<close>

definition size_pred :: "nat \<Rightarrow> nat" where
  "size_pred n = (n + SIZE_MAX) mod (SIZE_MAX + 1)"

definition chunkify_iter_next ::
  "('s, 'a) iter_next \<Rightarrow> bool \<Rightarrow> nat \<Rightarrow> 's \<Rightarrow> errno \<Rightarrow>
     'a chunk_iterator option \<times> 's \<times> errno" where
  "chunkify_iter_next subiter_next malloc_ok chunk subiter errno =
     (let save_errno = errno;
          (first, subiter', errno') = subiter_next subiter 0
      in if first = None \<and> errno' \<noteq> 0 then (None, subiter', errno')
         else if \<not> malloc_ok then (None, subiter', ENOMEM)
         else (Some \<lparr>chunk_first = first, chunk_count = size_pred chunk,
                      chunk_once = False\<rparr>, subiter', save_errno))"

definition rbh_iter_chunkify :: "bool \<Rightarrow> nat \<Rightarrow> errno + nat" where
  "rbh_iter_chunkify malloc_ok chunk =
     (if chunk = 0 then Inl EINVAL
      else if \<not> malloc_ok then Inl ENOMEM
      else Inr chunk)"

text \<open>
  A consumer that exhausts a chunk: it calls \<open>next\<close> until NULL comes back and collects
  what it was given.
\<close>

function chunk_drain ::
  "('s, 'a) iter_next \<Rightarrow> 'a chunk_iterator \<Rightarrow> 's \<Rightarrow> errno \<Rightarrow>
     'a list \<times> 'a chunk_iterator \<times> 's \<times> errno" where
  "chunk_drain subiter_next chunk subiter errno =
     (case chunk_iter_next subiter_next chunk subiter errno of
        (None, chunk', subiter', errno') \<Rightarrow> ([], chunk', subiter', errno')
      | (Some x, chunk', subiter', errno') \<Rightarrow>
          (case chunk_drain subiter_next chunk' subiter' errno' of
             (xs, rest) \<Rightarrow> (x # xs, rest)))"
  by pat_completeness auto
termination
  by (relation "measure (\<lambda>(f, chunk, s, e). chunk_count chunk + (if chunk_once chunk then 0 else 1))")
     (auto simp: chunk_iter_next_def Let_def split: if_splits prod.splits)

declare chunk_drain.simps [simp del]

text \<open>
  A consumer of the chunkify iterator that exhausts every chunk before it asks for the
  next one, and stops when the outer \<open>next\<close> returns NULL. The loop need not end on an
  endless underlying iterator: not returning is the value \<open>None\<close>.
\<close>

partial_function (option) chunkify_drain ::
  "('s, 'a) iter_next \<Rightarrow> nat \<Rightarrow> 's \<Rightarrow> errno \<Rightarrow> ('a list list \<times> 's \<times> errno) option" where
  "chunkify_drain subiter_next chunk subiter errno =
     (case chunkify_iter_next subiter_next True chunk subiter errno of
        (None, subiter', errno') \<Rightarrow> Some ([], subiter', errno')
      | (Some c, subiter', errno') \<Rightarrow>
          (case chunk_drain subiter_next c subiter' errno' of
             (xs, c', subiter'', errno'') \<Rightarrow>
               Option.bind (chunkify_drain subiter_next chunk subiter'' errno'')
                 (\<lambda>(xss, rest). Some (xs # xss, rest))))"

text \<open>
  The chunks in the spec's words: a sequence cut into pieces of \<open>chunk\<close> elements, the
  last piece holding what is left.
\<close>

function spec_chunks :: "nat \<Rightarrow> 'a list \<Rightarrow> 'a list list" where
  "spec_chunks k xs = (if k = 0 \<or> xs = [] then [] else take k xs # spec_chunks k (drop k xs))"
  by pat_completeness auto
termination
  by (relation "measure (\<lambda>(k, xs). length xs)") auto

declare spec_chunks.simps [simp del]

text \<open>
  The errno rule of \<open>next\<close>, for an iterator called with \<open>errno\<close> cleared, as every
  combinator calls the iterator below it: an element comes with \<open>errno\<close> still clear, NULL
  comes with \<open>errno\<close> set.
\<close>

definition errno_rule :: "('s, 'a) iter_next \<Rightarrow> bool" where
  "errno_rule subiter_next =
     (\<forall>s. case subiter_next s 0 of
            (Some x, s', errno) \<Rightarrow> errno = 0
          | (None, s', errno) \<Rightarrow> errno \<noteq> 0)"

subsection \<open>\<open>rbh_iter_tee\<close>\<close>

text \<open>
  Modelled from the spec: \<open>rbh_queue\<close> (\<open>robinhood/queue.h\<close>) is not among the sources.
  By the spec it is the buffer, first in first out, of the elements one sibling has read
  ahead of the other, and buffering fails when memory runs out. The queue is the list of
  the pointers it holds, oldest first. Whether a push finds memory is an input of the
  model; a push that fails leaves the queue as it was and sets \<open>errno\<close> to \<open>ENOMEM\<close>.
\<close>

type_synonym 'a rbh_queue = "'a option list"

definition rbh_queue_push :: "bool \<Rightarrow> 'a rbh_queue \<Rightarrow> 'a option \<Rightarrow> errno \<Rightarrow> 'a rbh_queue option \<times> errno" where
  "rbh_queue_push mem_ok queue element errno =
     (if mem_ok then (Some (queue @ [element]), errno) else (None, ENOMEM))"

text \<open>
  The two siblings are two \<open>struct tee_iterator\<close> that point to each other through
  \<open>clone\<close> and to the same \<open>subiter\<close>. An operation on one sibling takes that sibling,
  the sibling \<open>clone\<close> points to (\<open>None\<close> when \<open>clone\<close> is NULL) and the shared
  underlying iterator, and returns all three.
\<close>

record 'a tee_iterator =
  tee_queue :: "'a rbh_queue"
  tee_next :: "'a option"

definition tee_iter_share ::
  "bool \<Rightarrow> 'a tee_iterator \<Rightarrow> 'a option \<Rightarrow> errno \<Rightarrow> int \<times> 'a tee_iterator \<times> errno" where
  "tee_iter_share mem_ok tee element errno =
     (case rbh_queue_push mem_ok (tee_queue tee) element errno of
        (Some queue, errno') \<Rightarrow> (0, tee\<lparr>tee_queue := queue\<rparr>, errno')
      | (None, errno') \<Rightarrow> (- 1, tee, errno'))"

text \<open>\<open>_tee_iter_next\<close> in the source.\<close>

definition tee_iter_next_pending ::
  "('s, 'a) iter_next \<Rightarrow> 'a tee_iterator \<Rightarrow> 's \<Rightarrow> errno \<Rightarrow>
     'a option \<times> 'a tee_iterator \<times> 's \<times> errno" where
  "tee_iter_next_pending subiter_next tee subiter errno =
     (if tee_next tee \<noteq> None
      then (tee_next tee, tee\<lparr>tee_next := None\<rparr>, subiter, errno)
      else (case subiter_next subiter errno of
              (element, subiter', errno') \<Rightarrow> (element, tee, subiter', errno')))"

text \<open>
  \<open>retry_ok\<close> and \<open>share_ok\<close> say whether the push of the retried share and the push
  of the new element find memory, should the call come to them.
\<close>

definition tee_iter_next ::
  "('s, 'a) iter_next \<Rightarrow> bool \<Rightarrow> bool \<Rightarrow> 'a tee_iterator \<Rightarrow> 'a tee_iterator option \<Rightarrow>
     's \<Rightarrow> errno \<Rightarrow> 'a option \<times> 'a tee_iterator \<times> 'a tee_iterator option \<times> 's \<times> errno" where
  "tee_iter_next subiter_next retry_ok share_ok tee clone subiter errno =
     (let save_errno = errno in
      case tee_queue tee of
        element # queue \<Rightarrow> (element, tee\<lparr>tee_queue := queue\<rparr>, clone, subiter, errno)
      | [] \<Rightarrow>
          (case (case clone of
                   None \<Rightarrow> Inr None
                 | Some c \<Rightarrow>
                     if tee_next c \<noteq> None
                     then (case tee_iter_share retry_ok c (tee_next c) errno of
                             (rc, c', errno') \<Rightarrow>
                               if rc \<noteq> 0 then Inl errno'
                               else Inr (Some (c'\<lparr>tee_next := None\<rparr>)))
                     else Inr (Some c)) of
             Inl errno' \<Rightarrow> (None, tee, clone, subiter, errno')
           | Inr clone' \<Rightarrow>
               (case tee_iter_next_pending subiter_next tee subiter 0 of
                  (element, tee', subiter', errno') \<Rightarrow>
                    if element = None \<and> errno' \<noteq> 0
                    then (None, tee', clone', subiter', errno')
                    else
                      let clone'' =
                            (case clone' of
                               None \<Rightarrow> None
                             | Some c \<Rightarrow>
                                 (case tee_iter_share share_ok c element errno' of
                                    (rc, c', _) \<Rightarrow>
                                      if rc \<noteq> 0 then Some (c'\<lparr>tee_next := element\<rparr>)
                                      else Some c'))
                      in (element, tee', clone'', subiter', save_errno))))"

definition tee_iter_new :: "bool \<Rightarrow> bool \<Rightarrow> errno + 'a tee_iterator" where
  "tee_iter_new queue_ok malloc_ok =
     (if \<not> queue_ok then Inl ENOMEM
      else if \<not> malloc_ok then Inl ENOMEM
      else Inr \<lparr>tee_queue = [], tee_next = None\<rparr>)"

text \<open>
  The state of a tee: the underlying iterator, \<open>iterators[0]\<close> and \<open>iterators[1]\<close>
  (linked to each other by \<open>rbh_iter_tee\<close>), and \<open>errno\<close>. The last two fields are not in
  the code: they record what each sibling has handed to its caller so far.
\<close>

record ('s, 'a) tee_state =
  ts_subiter :: 's
  ts_tee0 :: "'a tee_iterator"
  ts_tee1 :: "'a tee_iterator"
  ts_errno :: errno
  ts_seen0 :: "'a list"
  ts_seen1 :: "'a list"

definition rbh_iter_tee ::
  "bool \<times> bool \<Rightarrow> bool \<times> bool \<Rightarrow> 's \<Rightarrow> errno \<Rightarrow> errno + ('s, 'a) tee_state" where
  "rbh_iter_tee new0 new1 iterator errno =
     (case tee_iter_new (fst new0) (snd new0) of
        Inl e \<Rightarrow> Inl e
      | Inr t0 \<Rightarrow>
          (case tee_iter_new (fst new1) (snd new1) of
             Inl e \<Rightarrow> Inl e
           | Inr t1 \<Rightarrow>
               Inr \<lparr>ts_subiter = iterator, ts_tee0 = t0, ts_tee1 = t1, ts_errno = errno,
                    ts_seen0 = [], ts_seen1 = []\<rparr>))"

text \<open>One call of \<open>rbh_iter_next\<close> on one of the two siblings, and a sequence of such calls.\<close>

record tee_call =
  call_second :: bool
  call_retry_ok :: bool
  call_share_ok :: bool

definition seen :: "'a option \<Rightarrow> 'a list" where
  "seen element = (case element of None \<Rightarrow> [] | Some x \<Rightarrow> [x])"

definition tee_call_next ::
  "('s, 'a) iter_next \<Rightarrow> tee_call \<Rightarrow> ('s, 'a) tee_state \<Rightarrow> 'a option \<times> ('s, 'a) tee_state" where
  "tee_call_next subiter_next call st =
     (if call_second call
      then (case tee_iter_next subiter_next (call_retry_ok call) (call_share_ok call)
                   (ts_tee1 st) (Some (ts_tee0 st)) (ts_subiter st) (ts_errno st) of
              (element, tee, clone, subiter, errno) \<Rightarrow>
                (element,
                 st\<lparr>ts_subiter := subiter, ts_tee1 := tee,
                    ts_tee0 := (case clone of Some c \<Rightarrow> c | None \<Rightarrow> ts_tee0 st),
                    ts_errno := errno, ts_seen1 := ts_seen1 st @ seen element\<rparr>))
      else (case tee_iter_next subiter_next (call_retry_ok call) (call_share_ok call)
                   (ts_tee0 st) (Some (ts_tee1 st)) (ts_subiter st) (ts_errno st) of
              (element, tee, clone, subiter, errno) \<Rightarrow>
                (element,
                 st\<lparr>ts_subiter := subiter, ts_tee0 := tee,
                    ts_tee1 := (case clone of Some c \<Rightarrow> c | None \<Rightarrow> ts_tee1 st),
                    ts_errno := errno, ts_seen0 := ts_seen0 st @ seen element\<rparr>)))"

fun tee_run ::
  "('s, 'a) iter_next \<Rightarrow> tee_call list \<Rightarrow> ('s, 'a) tee_state \<Rightarrow> ('s, 'a) tee_state" where
  "tee_run subiter_next [] st = st"
| "tee_run subiter_next (call # calls) st =
     tee_run subiter_next calls (snd (tee_call_next subiter_next call st))"

text \<open>The state \<open>rbh_iter_tee\<close> makes when memory is found for both siblings.\<close>

definition tee_of :: "'s \<Rightarrow> errno \<Rightarrow> ('s, 'a) tee_state" where
  "tee_of iterator errno =
     \<lparr>ts_subiter = iterator, ts_tee0 = \<lparr>tee_queue = [], tee_next = None\<rparr>,
      ts_tee1 = \<lparr>tee_queue = [], tee_next = None\<rparr>, ts_errno = errno,
      ts_seen0 = [], ts_seen1 = []\<rparr>"

text \<open>Calls on the first and on the second sibling; \<open>ok\<close> says whether pushes find memory.\<close>

definition call0 :: "bool \<Rightarrow> tee_call" where
  "call0 ok = \<lparr>call_second = False, call_retry_ok = ok, call_share_ok = ok\<rparr>"

definition call1 :: "bool \<Rightarrow> tee_call" where
  "call1 ok = \<lparr>call_second = True, call_retry_ok = ok, call_share_ok = ok\<rparr>"

text \<open>
  The relation between the two siblings and the stream \<open>xs\<close> while every share has
  succeeded: the first sibling has handed out the first \<open>n\<close> elements and the second
  the first \<open>m\<close>, the underlying iterator stands after the first \<open>max n m\<close> elements,
  each queue holds what the other sibling has read ahead, and nothing is pending.
\<close>

definition tee_inv ::
  "('s, 'a) iter_next \<Rightarrow> 'a list \<Rightarrow> nat \<Rightarrow> nat \<Rightarrow> ('s, 'a) tee_state \<Rightarrow> bool" where
  "tee_inv subiter_next xs n m st =
     (n \<le> length xs \<and> m \<le> length xs
      \<and> yields subiter_next (ts_subiter st) (drop (max n m) xs)
      \<and> ts_seen0 st = take n xs \<and> ts_seen1 st = take m xs
      \<and> tee_queue (ts_tee0 st) = map Some (drop n (take m xs))
      \<and> tee_queue (ts_tee1 st) = map Some (drop m (take n xs))
      \<and> tee_next (ts_tee0 st) = None \<and> tee_next (ts_tee1 st) = None)"

section \<open>The MongoDB backend (\<open>src/backends/mongo/mongo.c\<close>)\<close>

subsection \<open>Events, documents and the driver\<close>

text \<open>
  Modelled from the spec: the declaration of \<open>struct rbh_fsevent\<close> (\<open>robinhood/fsevent.h\<close>)
  is not among the sources. By the spec an event is one of delete, link, unlink, upsert,
  namespace-xattrs and inode-xattrs, and carries the identifier of its entry; link and
  unlink carry a parent identifier and a name. An identifier is a string of bytes.
\<close>

type_synonym rbh_id = string

datatype rbh_fsevent_type =
  RBH_FET_DELETE | RBH_FET_LINK | RBH_FET_UNLINK | RBH_FET_UPSERT
| RBH_FET_NS_XATTRS | RBH_FET_INODE_XATTRS

record rbh_fsevent =
  fsevent_type :: rbh_fsevent_type
  fsevent_id :: rbh_id
  link_parent_id :: rbh_id
  link_name :: string
  fsevent_fields :: "(string \<times> string) list"

text \<open>
  Modelled from the spec: \<open>bson_from_unlink\<close> and \<open>bson_update_from_fsevent\<close> (the
  backend's \<open>bson.c\<close>) are not among the sources. By the spec the update document of an
  unlink removes the namespace edge \<open>{parent_id, name}\<close>, that of a link adds it, and that
  of an upsert or of extended attributes sets fields. Each of them returns NULL when it
  cannot build its document; \<open>built\<close> says whether it can.
\<close>

datatype bson_update =
  Pull_ns rbh_id string
| Add_to_set_ns rbh_id string
| Set_fields "(string \<times> string) list"

definition bson_from_unlink :: "bool \<Rightarrow> rbh_id \<Rightarrow> string \<Rightarrow> bson_update option" where
  "bson_from_unlink built parent_id name =
     (if built then Some (Pull_ns parent_id name) else None)"

definition bson_update_from_fsevent :: "bool \<Rightarrow> rbh_fsevent \<Rightarrow> bson_update option" where
  "bson_update_from_fsevent built fsevent =
     (if \<not> built then None
      else case fsevent_type fsevent of
             RBH_FET_LINK \<Rightarrow> Some (Add_to_set_ns (link_parent_id fsevent) (link_name fsevent))
           | RBH_FET_UNLINK \<Rightarrow> Some (Pull_ns (link_parent_id fsevent) (link_name fsevent))
           | _ \<Rightarrow> Some (Set_fields (fsevent_fields fsevent)))"

text \<open>
  A bulk operation of the driver is the list of the write operations appended to it, in
  the order of the appends, with the \<open>ordered\<close> option it was created with. The selector
  of every operation of this backend is \<open>{_id: id}\<close>, written as the identifier.
\<close>

datatype bulk_op =
  Remove_one rbh_id
| Update_one rbh_id bson_update bool

record mongoc_bulk_operation =
  bulk_ordered :: bool
  bulk_ops :: "bulk_op list"

text \<open>\<open>MONGOC_CHECK_VERSION\<close> of the driver's headers: the driver is at least that version.\<close>

record mongoc_version =
  MONGOC_MAJOR_VERSION :: nat
  MONGOC_MINOR_VERSION :: nat
  MONGOC_MICRO_VERSION :: nat

definition MONGOC_CHECK_VERSION :: "mongoc_version \<Rightarrow> nat \<Rightarrow> nat \<Rightarrow> nat \<Rightarrow> bool" where
  "MONGOC_CHECK_VERSION v major minor micro =
     (MONGOC_MAJOR_VERSION v > major
      \<or> (MONGOC_MAJOR_VERSION v = major \<and> MONGOC_MINOR_VERSION v > minor)
      \<or> (MONGOC_MAJOR_VERSION v = major \<and> MONGOC_MINOR_VERSION v = minor
          \<and> MONGOC_MICRO_VERSION v \<ge> micro))"

definition ENOBUFS :: errno where "ENOBUFS = 105"

text \<open>
  Modelled from the spec: \<open>RBH_BACKEND_ERROR\<close> and the buffer \<open>rbh_backend_error\<close>
  (\<open>robinhood/backend.h\<close>) are not among the sources. By the spec backend-error is an error
  kind of its own, accompanied by a last-error string buffer.
\<close>

definition RBH_BACKEND_ERROR :: errno where "RBH_BACKEND_ERROR = 1024"

definition rbh_backend_error_size :: nat where "rbh_backend_error_size = 512"

definition snprintf :: "nat \<Rightarrow> string \<Rightarrow> string" where
  "snprintf n text = take (n - 1) text"

text \<open>
  What the driver answers while one event is lowered: whether the selector could be
  built (\<open>BSON_APPEND_RBH_ID_FILTER\<close>), whether each document could be built, and for each
  operation whether its options could be built and whether the driver took it.
\<close>

record lowering =
  lw_id_filter :: bool
  lw_unlink_doc :: bool
  lw_unlink_opts :: bool
  lw_unlink_op :: bool
  lw_update_doc :: bool
  lw_update_opts :: bool
  lw_update_op :: bool
  lw_remove_op :: bool

definition mongoc_bulk_operation_update_one ::
  "mongoc_version \<Rightarrow> bool \<Rightarrow> bool \<Rightarrow> mongoc_bulk_operation \<Rightarrow> rbh_id \<Rightarrow> bson_update \<Rightarrow> bool \<Rightarrow>
     errno \<Rightarrow> bool \<times> mongoc_bulk_operation \<times> errno" where
  "mongoc_bulk_operation_update_one v opts_ok taken bulk selector update upsert errno =
     (if MONGOC_CHECK_VERSION v 1 7 0
      then if \<not> opts_ok then (False, bulk, ENOBUFS)
           else if taken
           then (True, bulk\<lparr>bulk_ops := bulk_ops bulk @ [Update_one selector update upsert]\<rparr>, errno)
           else (False, bulk, errno)
      else (True, bulk\<lparr>bulk_ops := bulk_ops bulk @ [Update_one selector update upsert]\<rparr>, errno))"

definition mongoc_bulk_operation_remove_one ::
  "mongoc_version \<Rightarrow> bool \<Rightarrow> mongoc_bulk_operation \<Rightarrow> rbh_id \<Rightarrow> errno \<Rightarrow>
     bool \<times> mongoc_bulk_operation \<times> errno" where
  "mongoc_bulk_operation_remove_one v taken bulk selector errno =
     (if MONGOC_CHECK_VERSION v 1 7 0 \<and> \<not> taken then (False, bulk, errno)
      else (True, bulk\<lparr>bulk_ops := bulk_ops bulk @ [Remove_one selector]\<rparr>, errno))"

subsection \<open>\<open>update\<close>\<close>

text \<open>The tail of \<open>mongo_bulk_append_fsevent\<close>, after the \<open>switch\<close>.\<close>

definition append_result ::
  "bool \<times> mongoc_bulk_operation \<times> errno \<Rightarrow> bool \<times> mongoc_bulk_operation \<times> errno" where
  "append_result r =
     (case r of (success, bulk, errno) \<Rightarrow>
        if \<not> success then (False, bulk, EINVAL) else (True, bulk, errno))"

text \<open>The \<open>default\<close> case of the \<open>switch\<close>, which the link case falls through to.\<close>

definition append_update ::
  "mongoc_version \<Rightarrow> lowering \<Rightarrow> mongoc_bulk_operation \<Rightarrow> rbh_fsevent \<Rightarrow> errno \<Rightarrow>
     bool \<times> mongoc_bulk_operation \<times> errno" where
  "append_update v env bulk fsevent errno =
     (case bson_update_from_fsevent (lw_update_doc env) fsevent of
        None \<Rightarrow> (False, bulk, errno)
      | Some update \<Rightarrow>
          append_result
            (mongoc_bulk_operation_update_one v (lw_update_opts env) (lw_update_op env) bulk
               (fsevent_id fsevent) update (fsevent_type fsevent \<noteq> RBH_FET_UNLINK) errno))"

definition mongo_bulk_append_fsevent ::
  "mongoc_version \<Rightarrow> lowering \<Rightarrow> mongoc_bulk_operation \<Rightarrow> rbh_fsevent \<Rightarrow> errno \<Rightarrow>
     bool \<times> mongoc_bulk_operation \<times> errno" where
  "mongo_bulk_append_fsevent v env bulk fsevent errno =
     (if \<not> lw_id_filter env then (False, bulk, errno)
      else case fsevent_type fsevent of
        RBH_FET_DELETE \<Rightarrow>
          append_result
            (mongoc_bulk_operation_remove_one v (lw_remove_op env) bulk (fsevent_id fsevent) errno)
      | RBH_FET_LINK \<Rightarrow>
          (case bson_from_unlink (lw_unlink_doc env) (link_parent_id fsevent) (link_name fsevent) of
             None \<Rightarrow> (False, bulk, errno)
           | Some update \<Rightarrow>
               (case mongoc_bulk_operation_update_one v (lw_unlink_opts env) (lw_unlink_op env) bulk
                       (fsevent_id fsevent) update False errno of
                  (success, bulk', errno') \<Rightarrow>
                    if \<not> success then append_result (success, bulk', errno')
                    else append_update v env bulk' fsevent errno'))
      | _ \<Rightarrow> append_update v env bulk fsevent errno)"

definition fsevent_iter_next ::
  "('s, rbh_fsevent) iter_next \<Rightarrow> 's \<Rightarrow> errno \<Rightarrow> rbh_fsevent option \<times> 's \<times> errno" where
  "fsevent_iter_next fsevents_next fsevents errno =
     (let save_errno = errno;
          (fsevent, fsevents', errno') = fsevents_next fsevents 0
      in (fsevent, fsevents', if errno' = 0 \<or> errno' = ENODATA then save_errno else errno'))"

text \<open>
  The \<open>fsevent_for_each\<close> loop of \<open>mongo_bulk_init_from_fsevents\<close>. It ends with
  \<open>False\<close> when an event could not be appended and with \<open>True\<close> when the iterator
  returned NULL; \<open>env n\<close> is what the driver answers while event number \<open>n\<close> is lowered.
  On an endless iterator the loop does not end: that is the value \<open>None\<close>.
\<close>

partial_function (option) fsevent_for_each ::
  "mongoc_version \<Rightarrow> (nat \<Rightarrow> lowering) \<Rightarrow> ('s, rbh_fsevent) iter_next \<Rightarrow>
     mongoc_bulk_operation \<Rightarrow> 's \<Rightarrow> errno \<Rightarrow> nat \<Rightarrow>
     (bool \<times> nat \<times> mongoc_bulk_operation \<times> 's \<times> errno) option" where
  "fsevent_for_each v env fsevents_next bulk fsevents errno count =
     (case fsevent_iter_next fsevents_next fsevents errno of
        (None, fsevents', errno') \<Rightarrow> Some (True, count, bulk, fsevents', errno')
      | (Some fsevent, fsevents', errno') \<Rightarrow>
          (case mongo_bulk_append_fsevent v (env count) bulk fsevent errno' of
             (appended, bulk', errno'') \<Rightarrow>
               if \<not> appended then Some (False, count, bulk', fsevents', errno'')
               else fsevent_for_each v env fsevents_next bulk' fsevents' errno'' (count + 1)))"

definition mongo_bulk_init_from_fsevents ::
  "mongoc_version \<Rightarrow> (nat \<Rightarrow> lowering) \<Rightarrow> ('s, rbh_fsevent) iter_next \<Rightarrow>
     mongoc_bulk_operation \<Rightarrow> 's \<Rightarrow> errno \<Rightarrow>
     (int \<times> mongoc_bulk_operation \<times> 's \<times> errno) option" where
  "mongo_bulk_init_from_fsevents v env fsevents_next bulk fsevents errno =
     (let save_errno = errno in
      case fsevent_for_each v env fsevents_next bulk fsevents 0 0 of
        None \<Rightarrow> None
      | Some (appended, count, bulk', fsevents', errno') \<Rightarrow>
          if \<not> appended then Some (- 1, bulk', fsevents', errno')
          else if errno' \<noteq> 0 then Some (- 1, bulk', fsevents', errno')
          else Some (int count, bulk', fsevents', save_errno))"

definition mongoc_collection_create_bulk_operation ::
  "mongoc_version \<Rightarrow> bool \<Rightarrow> bool \<Rightarrow> bool \<Rightarrow> errno \<Rightarrow> mongoc_bulk_operation option \<times> errno" where
  "mongoc_collection_create_bulk_operation v opts_ok created ordered errno =
     (if MONGOC_CHECK_VERSION v 1 9 0 \<and> \<not> opts_ok then (None, ENOBUFS)
      else if \<not> created then (None, errno)
      else (Some \<lparr>bulk_ordered = ordered, bulk_ops = []\<rparr>, errno))"

text \<open>
  What \<open>mongoc_bulk_operation_execute\<close> answers: its return value (0 when the execution
  failed), the message of the error it fills in, and the error labels of its reply.
\<close>

record execution =
  exec_rc :: nat
  exec_message :: string
  exec_labels :: "string list"

record update_env =
  env_version :: mongoc_version
  env_create_opts :: bool
  env_create :: bool
  env_lowering :: "nat \<Rightarrow> lowering"
  env_execute :: "mongoc_bulk_operation \<Rightarrow> execution"

text \<open>
  The outcome of \<open>update\<close>: the value returned, \<open>errno\<close> and the buffer
  \<open>rbh_backend_error\<close> after the call, the state of the event iterator, and the bulk
  operation that was handed to \<open>mongoc_bulk_operation_execute\<close>, if any was.
\<close>

record 's update_outcome =
  upd_return :: int
  upd_errno :: errno
  upd_backend_error :: string
  upd_fsevents :: 's
  upd_executed :: "mongoc_bulk_operation option"

definition mongo_backend_update ::
  "update_env \<Rightarrow> ('s, rbh_fsevent) iter_next \<Rightarrow> 's \<Rightarrow> errno \<Rightarrow> string \<Rightarrow>
     's update_outcome option" where
  "mongo_backend_update env fsevents_next fsevents errno backend_error =
     (case mongoc_collection_create_bulk_operation (env_version env) (env_create_opts env)
             (env_create env) False errno of
        (None, _) \<Rightarrow>
          Some \<lparr>upd_return = - 1, upd_errno = ENOMEM, upd_backend_error = backend_error,
                upd_fsevents = fsevents, upd_executed = None\<rparr>
      | (Some bulk, errno0) \<Rightarrow>
          (case mongo_bulk_init_from_fsevents (env_version env) (env_lowering env)
                  fsevents_next bulk fsevents errno0 of
             None \<Rightarrow> None
           | Some (count, bulk', fsevents', errno') \<Rightarrow>
               if count \<le> 0
               then Some \<lparr>upd_return = count, upd_errno = errno',
                          upd_backend_error = backend_error, upd_fsevents = fsevents',
                          upd_executed = None\<rparr>
               else
                 let reply = env_execute env bulk' in
                 if exec_rc reply = 0
                 then
                   let errnum =
                         (if MONGOC_CHECK_VERSION (env_version env) 1 11 0
                             \<and> ''TransientTransactionError'' \<in> set (exec_labels reply)
                          then EAGAIN else RBH_BACKEND_ERROR)
                   in Some \<lparr>upd_return = - 1, upd_errno = errnum,
                            upd_backend_error =
                              snprintf rbh_backend_error_size (''mongoc: '' @ exec_message reply),
                            upd_fsevents = fsevents', upd_executed = Some bulk'\<rparr>
                 else Some \<lparr>upd_return = count, upd_errno = errno',
                            upd_backend_error = backend_error, upd_fsevents = fsevents',
                            upd_executed = Some bulk'\<rparr>))"

subsection \<open>The lowering, in the spec's words\<close>

text \<open>
  The operations the spec gives for an event: delete is a remove-one by id; link is the
  pair of an update-one without upsert that removes the namespace edge and an update-one
  with upsert that adds it; unlink is an update-one without upsert that removes the edge;
  every other event is an update-one with upsert.
\<close>

definition spec_bulk_ops :: "rbh_fsevent \<Rightarrow> bulk_op list" where
  "spec_bulk_ops fsevent =
     (case fsevent_type fsevent of
        RBH_FET_DELETE \<Rightarrow> [Remove_one (fsevent_id fsevent)]
      | RBH_FET_LINK \<Rightarrow>
          [Update_one (fsevent_id fsevent)
             (Pull_ns (link_parent_id fsevent) (link_name fsevent)) False,
           Update_one (fsevent_id fsevent)
             (Add_to_set_ns (link_parent_id fsevent) (link_name fsevent)) True]
      | RBH_FET_UNLINK \<Rightarrow>
          [Update_one (fsevent_id fsevent)
             (Pull_ns (link_parent_id fsevent) (link_name fsevent)) False]
      | _ \<Rightarrow> [Update_one (fsevent_id fsevent) (Set_fields (fsevent_fields fsevent)) True])"

text \<open>Whether the driver's answers let an event be lowered: what the code returns for it.\<close>

definition lowers :: "mongoc_version \<Rightarrow> lowering \<Rightarrow> rbh_fsevent \<Rightarrow> bool" where
  "lowers v env fsevent =
     fst (mongo_bulk_append_fsevent v env \<lparr>bulk_ordered = False, bulk_ops = []\<rparr> fsevent 0)"

text \<open>
  The transient transaction error the backend can recognise: the reply of the failed
  execution carries the label, and the driver is recent enough (1.11.0) to read labels.
\<close>

definition transient_transaction_error :: "mongoc_version \<Rightarrow> execution \<Rightarrow> bool" where
  "transient_transaction_error v reply =
     (MONGOC_CHECK_VERSION v 1 11 0 \<and> ''TransientTransactionError'' \<in> set (exec_labels reply))"

definition bulk_created :: "update_env \<Rightarrow> bool" where
  "bulk_created env =
     (env_create env \<and> (MONGOC_CHECK_VERSION (env_version env) 1 9 0 \<longrightarrow> env_create_opts env))"

subsection \<open>A concrete update\<close>

text \<open>
  The stream of the spec's scenario S6: link, unlink and delete of the entry \<open>X\<close> under
  the parent \<open>P1\<close> with the name \<open>a\<close>, held by an array iterator; a driver of version
  1.17.0 that answers every request positively; and an execution that succeeds, or fails
  with the message \<open>boom\<close> and the given labels.
\<close>

definition S6_event :: "rbh_fsevent_type \<Rightarrow> rbh_fsevent" where
  "S6_event t = \<lparr>fsevent_type = t, fsevent_id = ''X'', link_parent_id = ''P1'',
                 link_name = ''a'', fsevent_fields = []\<rparr>"

definition S6_events :: "rbh_fsevent list" where
  "S6_events = [S6_event RBH_FET_LINK, S6_event RBH_FET_UNLINK, S6_event RBH_FET_DELETE]"

definition array_of :: "'a list \<Rightarrow> 'a array_iterator" where
  "array_of xs = \<lparr>arr_array = xs, arr_size = 8, arr_count = length xs, arr_index = 0\<rparr>"

definition mongoc_1_17 :: mongoc_version where
  "mongoc_1_17 = \<lparr>MONGOC_MAJOR_VERSION = 1, MONGOC_MINOR_VERSION = 17, MONGOC_MICRO_VERSION = 0\<rparr>"

definition all_taken :: lowering where
  "all_taken = \<lparr>lw_id_filter = True, lw_unlink_doc = True, lw_unlink_opts = True,
                lw_unlink_op = True, lw_update_doc = True, lw_update_opts = True,
                lw_update_op = True, lw_remove_op = True\<rparr>"

definition S6_env :: "nat \<Rightarrow> string list \<Rightarrow> update_env" where
  "S6_env rc labels =
     \<lparr>env_version = mongoc_1_17, env_create_opts = True, env_create = True,
      env_lowering = (\<lambda>n. all_taken),
      env_execute = (\<lambda>bulk. \<lparr>exec_rc = rc, exec_message = ''boom'', exec_labels = labels\<rparr>)\<rparr>"

subsection \<open>\<open>root\<close>\<close>

text \<open>
  Filters, as \<open>robinhood/filter.h\<close> declares them: the operators, of which the last three
  are the logical ones, the fields, and a filter that is either a comparison of a field
  with a value or a logical combination of filters. \<open>ROOT_FILTER\<close> of \<open>mongo.c\<close> names
  its field through a later revision of that header (\<open>.field.fsentry = RBH_FP_PARENT_ID\<close>):
  it is the parent-id field.
\<close>

datatype rbh_filter_operator =
  RBH_FOP_EQUAL | RBH_FOP_STRICTLY_LOWER | RBH_FOP_LOWER_OR_EQUAL | RBH_FOP_STRICTLY_GREATER
| RBH_FOP_GREATER_OR_EQUAL | RBH_FOP_REGEX | RBH_FOP_IN | RBH_FOP_BITS_ANY_SET
| RBH_FOP_BITS_ALL_SET | RBH_FOP_BITS_ANY_CLEAR | RBH_FOP_BITS_ALL_CLEAR
| RBH_FOP_AND | RBH_FOP_OR | RBH_FOP_NOT

definition rbh_is_logical_operator :: "rbh_filter_operator \<Rightarrow> bool" where
  "rbh_is_logical_operator op = (op = RBH_FOP_AND \<or> op = RBH_FOP_OR \<or> op = RBH_FOP_NOT)"

definition rbh_is_comparison_operator :: "rbh_filter_operator \<Rightarrow> bool" where
  "rbh_is_comparison_operator op = (\<not> rbh_is_logical_operator op)"

datatype rbh_filter_field =
  RBH_FF_ID | RBH_FF_PARENT_ID | RBH_FF_ATIME | RBH_FF_MTIME | RBH_FF_CTIME | RBH_FF_NAME
| RBH_FF_TYPE

text \<open>
  Modelled from the spec: \<open>struct rbh_value\<close> (\<open>robinhood/value.h\<close>) is not among the
  sources. By the spec a value is binary, an integer of 32 or 64 bits, signed or not, a
  string, a regex with its option flags, a sequence of values or a map from strings to
  values.
\<close>

datatype rbh_value =
  RBH_VT_BINARY string
| RBH_VT_INT32 int
| RBH_VT_UINT32 nat
| RBH_VT_INT64 int
| RBH_VT_UINT64 nat
| RBH_VT_STRING string
| RBH_VT_REGEX string nat
| RBH_VT_SEQUENCE "rbh_value list"
| RBH_VT_MAP "(string \<times> rbh_value) list"

datatype rbh_filter =
  Compare rbh_filter_operator rbh_filter_field rbh_value
| Logical rbh_filter_operator "rbh_filter list"

definition ROOT_FILTER :: rbh_filter where
  "ROOT_FILTER = Compare RBH_FOP_EQUAL RBH_FF_PARENT_ID (RBH_VT_BINARY [])"

text \<open>
  Modelled from the spec: \<open>rbh_filter_validate\<close> (\<open>filter.c\<close>) is not among the sources.
  By the spec, and by the table of \<open>robinhood/filter.h\<close>, equality and ordering are valid
  with every type of value, \<open>matches\<close> only with a regex, \<open>in\<close> only with a sequence and
  the bitwise operators only with integers; \<open>not\<close> has exactly one child and \<open>and\<close> and
  \<open>or\<close> at least one. \<open>True\<close> stands for the return value 0.
\<close>

definition is_integer_value :: "rbh_value \<Rightarrow> bool" where
  "is_integer_value v =
     (case v of RBH_VT_INT32 _ \<Rightarrow> True | RBH_VT_UINT32 _ \<Rightarrow> True | RBH_VT_INT64 _ \<Rightarrow> True
      | RBH_VT_UINT64 _ \<Rightarrow> True | _ \<Rightarrow> False)"

definition comparison_valid :: "rbh_filter_operator \<Rightarrow> rbh_value \<Rightarrow> bool" where
  "comparison_valid op v =
     (case op of
        RBH_FOP_REGEX \<Rightarrow> (case v of RBH_VT_REGEX _ _ \<Rightarrow> True | _ \<Rightarrow> False)
      | RBH_FOP_IN \<Rightarrow> (case v of RBH_VT_SEQUENCE _ \<Rightarrow> True | _ \<Rightarrow> False)
      | RBH_FOP_BITS_ANY_SET \<Rightarrow> is_integer_value v
      | RBH_FOP_BITS_ALL_SET \<Rightarrow> is_integer_value v
      | RBH_FOP_BITS_ANY_CLEAR \<Rightarrow> is_integer_value v
      | RBH_FOP_BITS_ALL_CLEAR \<Rightarrow> is_integer_value v
      | RBH_FOP_AND \<Rightarrow> False
      | RBH_FOP_OR \<Rightarrow> False
      | RBH_FOP_NOT \<Rightarrow> False
      | _ \<Rightarrow> True)"

fun rbh_filter_validate :: "rbh_filter \<Rightarrow> bool" where
  "rbh_filter_validate (Compare op field v) = comparison_valid op v"
| "rbh_filter_validate (Logical op filters) =
     (rbh_is_logical_operator op \<and> filters \<noteq> []
      \<and> (if op = RBH_FOP_NOT then length filters = 1 else True)
      \<and> list_all rbh_filter_validate filters)"

text \<open>
  The aggregation pipeline \<open>bson_pipeline_from_filter\<close> builds: a stage that unwinds the
  namespace array and a stage that matches the filter. \<open>built\<close> says whether the document
  could be built; when it could not, \<open>errno\<close> is \<open>ENOBUFS\<close>. (\<open>MFF_NAMESPACE\<close> is a macro
  of the backend's \<open>mongo.h\<close>, the name of the namespace array in a document.)
\<close>

datatype pipeline_stage = Unwind string | Match rbh_filter

definition MFF_NAMESPACE :: string where
  "MFF_NAMESPACE = ''ns''"

definition bson_pipeline_from_filter ::
  "bool \<Rightarrow> rbh_filter \<Rightarrow> errno \<Rightarrow> pipeline_stage list option \<times> errno" where
  "bson_pipeline_from_filter built filter' errno =
     (if built then (Some [Unwind (''$'' @ MFF_NAMESPACE), Match filter'], errno)
      else (None, ENOBUFS))"

text \<open>
  Modelled from the spec: the store and the driver's cursor are outside the sources. By
  the spec an entry has an identifier and a sequence of namespace edges
  \<open>{parent_id, name}\<close>; the query unwinds that sequence, so that an entry is seen once per
  edge, and then applies the filter as a match; the entry that comes out of a row has the
  parent and the name of that row's edge (\<open>fsentry_from_bson\<close>, of the backend's \<open>bson.c\<close>).
  How the server evaluates a filter on a row is an input of the model (\<open>qe_matches\<close>), as
  are the failures of the driver.
\<close>

record mongo_document =
  doc_id :: rbh_id
  doc_ns :: "(rbh_id \<times> string) list"

record rbh_fsentry =
  fsentry_id :: rbh_id
  fsentry_parent_id :: rbh_id
  fsentry_name :: string

fun run_stage ::
  "(rbh_filter \<Rightarrow> mongo_document \<Rightarrow> bool) \<Rightarrow> mongo_document list \<Rightarrow> pipeline_stage \<Rightarrow>
     mongo_document list" where
  "run_stage matches docs (Unwind field_path) =
     concat (map (\<lambda>d. map (\<lambda>edge. d\<lparr>doc_ns := [edge]\<rparr>) (doc_ns d)) docs)"
| "run_stage matches docs (Match filter') = filter (matches filter') docs"

record mongoc_cursor =
  cursor_docs :: "mongo_document list"
  cursor_error :: errno

record query_env =
  qe_matches :: "rbh_filter \<Rightarrow> mongo_document \<Rightarrow> bool"
  qe_pipeline_built :: bool
  qe_cursor_created :: bool
  qe_cursor_error :: errno
  qe_iterator_malloc :: bool

definition mongoc_collection_aggregate ::
  "query_env \<Rightarrow> mongo_document list \<Rightarrow> pipeline_stage list \<Rightarrow> mongoc_cursor option" where
  "mongoc_collection_aggregate env entries pipeline =
     (if qe_cursor_created env
      then Some \<lparr>cursor_docs = foldl (run_stage (qe_matches env)) entries pipeline,
                 cursor_error = qe_cursor_error env\<rparr>
      else None)"

definition mongoc_cursor_next ::
  "mongoc_cursor \<Rightarrow> errno \<Rightarrow> mongo_document option \<times> mongoc_cursor \<times> errno" where
  "mongoc_cursor_next cursor errno =
     (case cursor_docs cursor of
        doc # docs \<Rightarrow> (Some doc, cursor\<lparr>cursor_docs := docs\<rparr>, errno)
      | [] \<Rightarrow> (None, cursor, if cursor_error cursor \<noteq> 0 then cursor_error cursor else errno))"

definition fsentry_from_bson :: "mongo_document \<Rightarrow> rbh_fsentry option" where
  "fsentry_from_bson doc =
     (case doc_ns doc of
        [(parent_id, name)] \<Rightarrow>
          Some \<lparr>fsentry_id = doc_id doc, fsentry_parent_id = parent_id, fsentry_name = name\<rparr>
      | _ \<Rightarrow> None)"

definition mongo_iter_next :: "(mongoc_cursor, rbh_fsentry) iter_next" where
  "mongo_iter_next mongo_iter errno =
     (let save_errno = errno in
      case mongoc_cursor_next mongo_iter 0 of
        (Some doc, cursor, errno') \<Rightarrow> (fsentry_from_bson doc, cursor, save_errno)
      | (None, cursor, errno') \<Rightarrow> (None, cursor, if errno' \<noteq> 0 then errno' else ENODATA))"

definition mongo_backend_filter_fsentries ::
  "query_env \<Rightarrow> mongo_document list \<Rightarrow> rbh_filter \<Rightarrow> nat \<Rightarrow> nat \<Rightarrow> errno \<Rightarrow>
     mongoc_cursor option \<times> errno" where
  "mongo_backend_filter_fsentries env entries filter' fsentry_mask statx_mask errno =
     (if \<not> rbh_filter_validate filter' then (None, EINVAL)
      else case bson_pipeline_from_filter (qe_pipeline_built env) filter' errno of
        (None, errno') \<Rightarrow> (None, errno')
      | (Some pipeline, errno') \<Rightarrow>
          (case mongoc_collection_aggregate env entries pipeline of
             None \<Rightarrow> (None, EINVAL)
           | Some cursor \<Rightarrow>
               if \<not> qe_iterator_malloc env then (None, ENOMEM)
               else (Some cursor, errno')))"

text \<open>
  Modelled from the spec: \<open>rbh_backend_filter_one\<close> (\<open>backend.c\<close>) is not among the sources.
  By the spec it wraps \<open>filter_entries\<close>, pulls one element, destroys the iterator, and
  returns no-such-entry (\<open>ENOENT\<close>) if the iterator is empty.
\<close>

definition rbh_backend_filter_one ::
  "query_env \<Rightarrow> mongo_document list \<Rightarrow> rbh_filter \<Rightarrow> nat \<Rightarrow> nat \<Rightarrow> errno \<Rightarrow>
     rbh_fsentry option \<times> errno" where
  "rbh_backend_filter_one env entries filter' fsentry_mask statx_mask errno =
     (case mongo_backend_filter_fsentries env entries filter' fsentry_mask statx_mask errno of
        (None, errno') \<Rightarrow> (None, errno')
      | (Some fsentries, errno') \<Rightarrow>
          (case mongo_iter_next fsentries errno' of
             (fsentry, _, errno'') \<Rightarrow>
               if fsentry = None \<and> errno'' = ENODATA then (None, ENOENT)
               else (fsentry, errno'')))"

definition mongo_root ::
  "query_env \<Rightarrow> mongo_document list \<Rightarrow> nat \<Rightarrow> nat \<Rightarrow> errno \<Rightarrow> rbh_fsentry option \<times> errno" where
  "mongo_root env entries fsentry_mask statx_mask errno =
     rbh_backend_filter_one env entries ROOT_FILTER fsentry_mask statx_mask errno"

text \<open>
  In the spec's words: the entries of the store, one per namespace edge, and among them
  those whose parent identifier is empty. \<open>query_succeeds\<close> says that the driver builds
  and runs the query without a failure; \<open>root_semantics\<close> that the server evaluates the
  root filter as the spec says equality on binary values is evaluated, byte for byte.
\<close>

definition namespace_rows :: "mongo_document list \<Rightarrow> rbh_fsentry list" where
  "namespace_rows entries =
     concat (map (\<lambda>d. map (\<lambda>(parent_id, name).
        \<lparr>fsentry_id = doc_id d, fsentry_parent_id = parent_id, fsentry_name = name\<rparr>) (doc_ns d))
        entries)"

definition roots :: "mongo_document list \<Rightarrow> rbh_fsentry list" where
  "roots entries = filter (\<lambda>e. fsentry_parent_id e = []) (namespace_rows entries)"

definition query_succeeds :: "query_env \<Rightarrow> bool" where
  "query_succeeds env =
     (qe_pipeline_built env \<and> qe_cursor_created env \<and> qe_iterator_malloc env
      \<and> qe_cursor_error env = 0)"

definition root_semantics :: "query_env \<Rightarrow> bool" where
  "root_semantics env =
     (\<forall>d parent_id name. doc_ns d = [(parent_id, name)] \<longrightarrow>
        qe_matches env ROOT_FILTER d = (parent_id = []))"

text \<open>
  The store of the spec's scenario S7, a root \<open>R\<close> and one child of it, and a server that
  evaluates equality on the parent identifier byte for byte.
\<close>

definition S7_matches :: "rbh_filter \<Rightarrow> mongo_document \<Rightarrow> bool" where
  "S7_matches filter' doc =
     (case filter' of
        Compare RBH_FOP_EQUAL RBH_FF_PARENT_ID (RBH_VT_BINARY bytes) \<Rightarrow>
          (case doc_ns doc of [(parent_id, name)] \<Rightarrow> parent_id = bytes | _ \<Rightarrow> False)
      | _ \<Rightarrow> False)"

definition S7_env :: query_env where
  "S7_env = \<lparr>qe_matches = S7_matches, qe_pipeline_built = True, qe_cursor_created = True,
             qe_cursor_error = 0, qe_iterator_malloc = True\<rparr>"

definition S7_store :: "mongo_document list" where
  "S7_store = [\<lparr>doc_id = ''R'', doc_ns = [([], [])]\<rparr>,
               \<lparr>doc_id = ''C'', doc_ns = [(''R'', ''child'')]\<rparr>]"


section \<open>Properties of the URI parser\<close>

text \<open>
  C8. Parsing \<open>mongo://user:pw@db.example:27017/rbh?x=1#f\<close> succeeds. The separators
  are overwritten by terminators (the leading \<open>//\<close> is squeezed out by moving the authority
  two bytes to the left, which leaves two terminators before the path), and the seven
  pointers of the result read as scheme \<open>mongo\<close>, userinfo \<open>user:pw\<close>, host
  \<open>db.example\<close>, port \<open>27017\<close>, path \<open>/rbh\<close>, query \<open>x=1\<close> and fragment \<open>f\<close>.
\<close>

theorem parse_raw_uri_S1:
  "rbh_parse_raw_uri (cbuf ''mongo://user:pw@db.example:27017/rbh?x=1#f'') =
     Inr (\<lparr>scheme = Some 0, userinfo = Some 6, host = Some 14, port = Some 25,
           path = Some 32, query = Some 37, fragment = Some 41\<rparr>,
          ''mongo'' @ [NUL] @ ''user:pw'' @ [NUL] @ ''db.example'' @ [NUL] @ ''27017'' @
          [NUL, NUL] @ ''/rbh'' @ [NUL] @ ''x=1'' @ [NUL] @ ''f'' @ [NUL])
   \<and> map_sum id read_uri
       (rbh_parse_raw_uri (cbuf ''mongo://user:pw@db.example:27017/rbh?x=1#f'')) =
     Inr \<lparr>scheme_str = Some ''mongo'', userinfo_str = Some ''user:pw'',
          host_str = Some ''db.example'', port_str = Some ''27017'',
          path_str = Some ''/rbh'', query_str = Some ''x=1'', fragment_str = Some ''f''\<rparr>"
  by code_simp

theorem parse_raw_uri_S1_witness:
  "isalpha (CHR ''m'')
   \<and> (case rbh_parse_raw_uri (cbuf ''mongo://user:pw@db.example:27017/rbh?x=1#f'') of
        Inl e \<Rightarrow> False
      | Inr (uri, buf) \<Rightarrow> host uri = Some 14 \<and> cstring buf 14 = ''db.example'')"
  using parse_raw_uri_S1 by (simp add: isalpha_def cstring_def NUL_def)

section \<open>Properties of the bulk update\<close>

lemma array_yields_from:
  "arr_count a = length (arr_array a) \<Longrightarrow> arr_index a \<le> arr_count a \<Longrightarrow>
   xs = drop (arr_index a) (arr_array a) \<Longrightarrow> yields array_iter_next a xs"
proof (induction xs arbitrary: a)
  case Nil
  then show ?case by (simp add: array_iter_next_def)
next
  case (Cons x xs)
  from Cons.prems have lt: "arr_index a < length (arr_array a)"
    by (metis drop_all linorder_not_less list.distinct(1))
  with Cons.prems have x: "x = arr_array a ! arr_index a"
    by (metis Cons_nth_drop_Suc list.inject)
  from Cons.prems lt have xs: "xs = drop (Suc (arr_index a)) (arr_array a)"
    by (metis Cons_nth_drop_Suc list.inject)
  have "yields array_iter_next (a\<lparr>arr_index := arr_index a + 1\<rparr>) xs"
    using Cons.prems lt xs by (intro Cons.IH) auto
  moreover have "array_iter_next a 0 = (Some x, a\<lparr>arr_index := arr_index a + 1\<rparr>, 0)"
    using lt x Cons.prems(1) by (simp add: array_iter_next_def)
  ultimately show ?case
    by simp
qed

lemma array_yields: "yields array_iter_next (array_of xs) xs"
  by (rule array_yields_from) (simp_all add: array_of_def)

lemma append_fst:
  "fst (mongo_bulk_append_fsevent v env bulk fsevent errno) = lowers v env fsevent"
  by (auto simp: lowers_def mongo_bulk_append_fsevent_def append_update_def append_result_def
      bson_from_unlink_def bson_update_from_fsevent_def mongoc_bulk_operation_update_one_def
      mongoc_bulk_operation_remove_one_def
      split: if_splits option.splits prod.splits rbh_fsevent_type.splits)

lemma append_lowers:
  "lowers v env fsevent \<Longrightarrow>
   mongo_bulk_append_fsevent v env bulk fsevent errno =
     (True, bulk\<lparr>bulk_ops := bulk_ops bulk @ spec_bulk_ops fsevent\<rparr>, errno)"
  by (auto simp: lowers_def mongo_bulk_append_fsevent_def append_update_def append_result_def
      bson_from_unlink_def bson_update_from_fsevent_def mongoc_bulk_operation_update_one_def
      mongoc_bulk_operation_remove_one_def spec_bulk_ops_def
      split: if_splits option.splits prod.splits rbh_fsevent_type.splits)

lemma for_each_all:
  "yields nxt s evs \<Longrightarrow> (\<forall>i < length evs. lowers v (env (count + i)) (evs ! i)) \<Longrightarrow>
   \<exists>s'. fsevent_for_each v env nxt bulk s errno count =
     Some (True, count + length evs,
           bulk\<lparr>bulk_ops := bulk_ops bulk @ concat (map spec_bulk_ops evs)\<rparr>, s', errno)"
proof (induction evs arbitrary: s bulk count)
  case Nil
  then show ?case
    by (subst fsevent_for_each.simps) (simp add: fsevent_iter_next_def ENODATA_def)
next
  case (Cons ev evs)
  from Cons.prems(1) obtain t where t: "nxt s 0 = (Some ev, t, 0)" "yields nxt t evs"
    by (auto split: prod.splits option.splits)
  from Cons.prems(2) have h: "lowers v (env count) ev"
    by (metis add.right_neutral length_greater_0_conv list.distinct(1) nth_Cons_0)
  from Cons.prems(2) have r: "\<forall>i<length evs. lowers v (env (Suc count + i)) (evs ! i)"
    by fastforce
  from Cons.IH[OF t(2) r, of "bulk\<lparr>bulk_ops := bulk_ops bulk @ spec_bulk_ops ev\<rparr>"]
  show ?case
    by (subst fsevent_for_each.simps) (simp add: fsevent_iter_next_def t append_lowers[OF h])
qed

lemma for_each_fail:
  "yields nxt s evs \<Longrightarrow> i < length evs \<Longrightarrow> \<not> lowers v (env (count + i)) (evs ! i) \<Longrightarrow>
   \<exists>n b s' e. fsevent_for_each v env nxt bulk s errno count = Some (False, n, b, s', e)"
proof (induction evs arbitrary: s bulk count i)
  case Nil
  then show ?case by simp
next
  case (Cons ev evs)
  from Cons.prems(1) obtain t where t: "nxt s 0 = (Some ev, t, 0)" "yields nxt t evs"
    by (auto split: prod.splits option.splits)
  show ?case
  proof (cases "lowers v (env count) ev")
    case True
    with Cons.prems obtain j where j: "i = Suc j" "j < length evs"
      "\<not> lowers v (env (Suc count + j)) (evs ! j)"
      by (cases i) auto
    from Cons.IH[OF t(2) j(2,3), of "bulk\<lparr>bulk_ops := bulk_ops bulk @ spec_bulk_ops ev\<rparr>"]
    show ?thesis
      by (subst fsevent_for_each.simps) (simp add: fsevent_iter_next_def t append_lowers[OF True])
  next
    case False
    then have "\<not> fst (mongo_bulk_append_fsevent v (env count) bulk ev errno)"
      by (simp add: append_fst)
    then show ?thesis
      by (subst fsevent_for_each.simps)
         (auto simp: fsevent_iter_next_def t split: prod.splits)
  qed
qed

lemma init_all:
  assumes "yields nxt s evs" and "\<forall>i < length evs. lowers v (env i) (evs ! i)"
  shows "\<exists>s'. mongo_bulk_init_from_fsevents v env nxt bulk s errno =
     Some (int (length evs),
           bulk\<lparr>bulk_ops := bulk_ops bulk @ concat (map spec_bulk_ops evs)\<rparr>, s', errno)"
proof -
  have "\<exists>s'. fsevent_for_each v env nxt bulk s 0 0 =
     Some (True, 0 + length evs,
           bulk\<lparr>bulk_ops := bulk_ops bulk @ concat (map spec_bulk_ops evs)\<rparr>, s', 0)"
    using for_each_all[where env = env and count = 0 and v = v and evs = evs
        and s = s and nxt = nxt] assms by simp
  then show ?thesis by (auto simp: mongo_bulk_init_from_fsevents_def)
qed

lemma init_fail:
  assumes "yields nxt s evs" and "i < length evs" and "\<not> lowers v (env i) (evs ! i)"
  shows "\<exists>b s' e. mongo_bulk_init_from_fsevents v env nxt bulk s errno = Some (- 1, b, s', e)"
proof -
  have "\<exists>n b s' e. fsevent_for_each v env nxt bulk s 0 0 = Some (False, n, b, s', e)"
    using for_each_fail[where env = env and count = 0 and i = i and v = v and evs = evs
        and s = s and nxt = nxt] assms by simp
  then show ?thesis by (auto simp: mongo_bulk_init_from_fsevents_def)
qed

lemma S6_lowers: "lowers mongoc_1_17 all_taken (S6_event t)"
  by (cases t)
     (simp_all add: lowers_def mongo_bulk_append_fsevent_def append_update_def
      append_result_def bson_from_unlink_def bson_update_from_fsevent_def
      mongoc_bulk_operation_update_one_def mongoc_bulk_operation_remove_one_def
      MONGOC_CHECK_VERSION_def mongoc_1_17_def all_taken_def S6_event_def)

lemma S6_all_lower:
  "\<forall>i < length S6_events. lowers (env_version (S6_env rc ls)) (env_lowering (S6_env rc ls) i)
      (S6_events ! i)"
  by (auto simp: S6_events_def S6_env_def S6_lowers nth_Cons split: nat.splits)

text \<open>
  C1. A link event is lowered to two operations on the entry's id, appended one right
  after the other at the end of the bulk: first the update-one without upsert that removes
  the namespace edge, then the update-one with upsert that adds it. The lowering succeeds
  exactly when the selector, the unlink operation and the link operation could all be
  issued, and then the bulk has grown by exactly that pair. When the selector or the
  unlink operation cannot be built or issued, the lowering reports failure and the bulk is
  as it was: the link operation has not been issued. (From version 1.7.0 on the driver can
  refuse an operation; an older driver takes every operation.)
\<close>

theorem link_event_lowering:
  assumes "fsevent_type fsevent = RBH_FET_LINK"
    and "unlink = Update_one (fsevent_id fsevent)
                    (Pull_ns (link_parent_id fsevent) (link_name fsevent)) False"
    and "link = Update_one (fsevent_id fsevent)
                  (Add_to_set_ns (link_parent_id fsevent) (link_name fsevent)) True"
    and "unlink_issued = (lw_unlink_doc env \<and>
           (MONGOC_CHECK_VERSION v 1 7 0 \<longrightarrow> lw_unlink_opts env \<and> lw_unlink_op env))"
    and "link_issued = (lw_update_doc env \<and>
           (MONGOC_CHECK_VERSION v 1 7 0 \<longrightarrow> lw_update_opts env \<and> lw_update_op env))"
    and "mongo_bulk_append_fsevent v env bulk fsevent errno = (success, bulk', errno')"
  shows "(success \<longleftrightarrow> lw_id_filter env \<and> unlink_issued \<and> link_issued)
     \<and> (success \<longrightarrow> bulk' = bulk\<lparr>bulk_ops := bulk_ops bulk @ [unlink, link]\<rparr>)
     \<and> (\<not> (lw_id_filter env \<and> unlink_issued) \<longrightarrow> \<not> success \<and> bulk' = bulk)
     \<and> (lw_id_filter env \<and> unlink_issued \<and> \<not> link_issued \<longrightarrow>
           bulk' = bulk\<lparr>bulk_ops := bulk_ops bulk @ [unlink]\<rparr>)"
  using assms
  by (auto simp: mongo_bulk_append_fsevent_def append_update_def append_result_def
      bson_from_unlink_def bson_update_from_fsevent_def mongoc_bulk_operation_update_one_def
      split: if_splits option.splits prod.splits)

theorem link_event_lowering_witness:
  "fsevent_type (S6_event RBH_FET_LINK) = RBH_FET_LINK
   \<and> fst (mongo_bulk_append_fsevent mongoc_1_17 all_taken
            \<lparr>bulk_ordered = False, bulk_ops = []\<rparr> (S6_event RBH_FET_LINK) 0)
   \<and> fst (snd (mongo_bulk_append_fsevent mongoc_1_17 all_taken
            \<lparr>bulk_ordered = False, bulk_ops = []\<rparr> (S6_event RBH_FET_LINK) 0)) =
       \<lparr>bulk_ordered = False,
        bulk_ops = [Update_one ''X'' (Pull_ns ''P1'' ''a'') False,
                    Update_one ''X'' (Add_to_set_ns ''P1'' ''a'') True]\<rparr>
   \<and> \<not> fst (mongo_bulk_append_fsevent mongoc_1_17 (all_taken\<lparr>lw_unlink_op := False\<rparr>)
            \<lparr>bulk_ordered = False, bulk_ops = []\<rparr> (S6_event RBH_FET_LINK) 0)
   \<and> fst (snd (mongo_bulk_append_fsevent mongoc_1_17 (all_taken\<lparr>lw_unlink_op := False\<rparr>)
            \<lparr>bulk_ordered = False, bulk_ops = []\<rparr> (S6_event RBH_FET_LINK) 0)) =
       \<lparr>bulk_ordered = False, bulk_ops = []\<rparr>"
proof -
  have t: "fsevent_type (S6_event RBH_FET_LINK) = RBH_FET_LINK"
    by (simp add: S6_event_def)
  have v: "MONGOC_CHECK_VERSION mongoc_1_17 1 7 0"
    by (simp add: MONGOC_CHECK_VERSION_def mongoc_1_17_def)
  obtain s1 b1 e1 where r1: "mongo_bulk_append_fsevent mongoc_1_17 all_taken
      \<lparr>bulk_ordered = False, bulk_ops = []\<rparr> (S6_event RBH_FET_LINK) 0 = (s1, b1, e1)"
    by (rule prod_cases3)
  obtain s2 b2 e2 where r2: "mongo_bulk_append_fsevent mongoc_1_17
      (all_taken\<lparr>lw_unlink_op := False\<rparr>)
      \<lparr>bulk_ordered = False, bulk_ops = []\<rparr> (S6_event RBH_FET_LINK) 0 = (s2, b2, e2)"
    by (rule prod_cases3)
  from link_event_lowering[OF t refl refl refl refl r1]
    link_event_lowering[OF t refl refl refl refl r2]
  show ?thesis
    unfolding r1 r2 using t v by (simp add: all_taken_def S6_event_def)
qed

text \<open>
  C2. Provided the bulk operation could be created, and for an iterator that yields the
  events \<open>evs\<close> and then ends, all of which can be lowered: if there are no events,
  \<open>update\<close> returns 0, executes nothing and leaves \<open>errno\<close> and the error buffer alone;
  otherwise it executes the bulk of the lowered events, and returns \<open>-1\<close> with \<open>EAGAIN\<close>
  (retry-later) when the execution fails with a transient transaction error, \<open>-1\<close> with
  \<open>RBH_BACKEND_ERROR\<close> and the driver's message in the error buffer when it fails
  otherwise, and the number of events when it succeeds.
\<close>

theorem update_outcomes:
  assumes "yields fsevents_next fsevents evs"
    and "\<forall>i < length evs. lowers (env_version env) (env_lowering env i) (evs ! i)"
    and "bulk_created env"
    and "bulk = \<lparr>bulk_ordered = False, bulk_ops = concat (map spec_bulk_ops evs)\<rparr>"
    and "reply = env_execute env bulk"
  shows "\<exists>out. mongo_backend_update env fsevents_next fsevents errno backend_error = Some out
     \<and> (evs = [] \<longrightarrow>
          upd_return out = 0 \<and> upd_executed out = None \<and> upd_errno out = errno
          \<and> upd_backend_error out = backend_error)
     \<and> (evs \<noteq> [] \<longrightarrow> upd_executed out = Some bulk)
     \<and> (evs \<noteq> [] \<and> exec_rc reply = 0 \<and> transient_transaction_error (env_version env) reply \<longrightarrow>
          upd_return out = - 1 \<and> upd_errno out = EAGAIN)
     \<and> (evs \<noteq> [] \<and> exec_rc reply = 0 \<and> \<not> transient_transaction_error (env_version env) reply \<longrightarrow>
          upd_return out = - 1 \<and> upd_errno out = RBH_BACKEND_ERROR
          \<and> upd_backend_error out =
              snprintf rbh_backend_error_size (''mongoc: '' @ exec_message reply))
     \<and> (evs \<noteq> [] \<and> exec_rc reply \<noteq> 0 \<longrightarrow>
          upd_return out = int (length evs) \<and> upd_errno out = errno
          \<and> upd_backend_error out = backend_error)"
proof -
  from assms(3) have c: "mongoc_collection_create_bulk_operation (env_version env)
      (env_create_opts env) (env_create env) False errno =
      (Some \<lparr>bulk_ordered = False, bulk_ops = []\<rparr>, errno)"
    by (auto simp: bulk_created_def mongoc_collection_create_bulk_operation_def)
  from init_all[where env = "env_lowering env" and v = "env_version env"
        and evs = evs and s = fsevents and nxt = fsevents_next
        and bulk = "\<lparr>bulk_ordered = False, bulk_ops = []\<rparr>" and errno = errno] assms(1,2)
  obtain s' where i: "mongo_bulk_init_from_fsevents (env_version env) (env_lowering env)
      fsevents_next \<lparr>bulk_ordered = False, bulk_ops = []\<rparr> fsevents errno =
      Some (int (length evs), bulk, s', errno)"
    by (auto simp: assms(4))
  show ?thesis
    by (simp add: mongo_backend_update_def c i Let_def transient_transaction_error_def
        assms(5)[symmetric])
qed

theorem update_outcomes_witness:
  "(\<exists>out. mongo_backend_update (S6_env 1 []) array_iter_next (array_of []) 5 [] = Some out
       \<and> upd_return out = 0 \<and> upd_executed out = None \<and> upd_errno out = 5)
   \<and> (\<exists>out. mongo_backend_update (S6_env 0 [''TransientTransactionError'']) array_iter_next
              (array_of S6_events) 5 [] = Some out
       \<and> upd_return out = - 1 \<and> upd_errno out = EAGAIN)
   \<and> (\<exists>out. mongo_backend_update (S6_env 0 []) array_iter_next (array_of S6_events) 5 [] =
              Some out
       \<and> upd_return out = - 1 \<and> upd_errno out = RBH_BACKEND_ERROR
       \<and> upd_backend_error out = ''mongoc: boom'')
   \<and> (\<exists>out. mongo_backend_update (S6_env 1 []) array_iter_next (array_of S6_events) 5 [] =
              Some out
       \<and> upd_return out = 3 \<and> upd_errno out = 5
       \<and> upd_executed out =
           Some \<lparr>bulk_ordered = False,
                 bulk_ops = [Update_one ''X'' (Pull_ns ''P1'' ''a'') False,
                             Update_one ''X'' (Add_to_set_ns ''P1'' ''a'') True,
                             Update_one ''X'' (Pull_ns ''P1'' ''a'') False,
                             Remove_one ''X'']\<rparr>)"
proof -
  have c: "bulk_created (S6_env rc ls)" for rc ls
    by (simp add: bulk_created_def S6_env_def)
  have e: "\<forall>i < length ([] :: rbh_fsevent list).
      lowers (env_version (S6_env 1 [])) (env_lowering (S6_env 1 []) i) ([] ! i)"
    by simp
  have ops: "concat (map spec_bulk_ops S6_events) =
      [Update_one ''X'' (Pull_ns ''P1'' ''a'') False,
       Update_one ''X'' (Add_to_set_ns ''P1'' ''a'') True,
       Update_one ''X'' (Pull_ns ''P1'' ''a'') False, Remove_one ''X'']"
    by (simp add: S6_events_def S6_event_def spec_bulk_ops_def)
  have ne: "S6_events \<noteq> []" and len: "length S6_events = 3"
    by (simp_all add: S6_events_def)
  have tr: "transient_transaction_error mongoc_1_17
      \<lparr>exec_rc = 0, exec_message = ''boom'', exec_labels = [''TransientTransactionError'']\<rparr>"
    "\<not> transient_transaction_error mongoc_1_17
      \<lparr>exec_rc = 0, exec_message = ''boom'', exec_labels = []\<rparr>"
    by (simp_all add: transient_transaction_error_def MONGOC_CHECK_VERSION_def mongoc_1_17_def)
  have msg: "snprintf rbh_backend_error_size (''mongoc: '' @ ''boom'') = ''mongoc: boom''"
    by (simp add: snprintf_def rbh_backend_error_size_def)
  from update_outcomes[OF array_yields e c refl refl, of 5 "[]"]
  have w1: "\<exists>out. mongo_backend_update (S6_env 1 []) array_iter_next (array_of []) 5 [] =
      Some out \<and> upd_return out = 0 \<and> upd_executed out = None \<and> upd_errno out = 5"
    by auto
  from update_outcomes[OF array_yields S6_all_lower c refl refl,
      of 0 "[''TransientTransactionError'']" 5 "[]"]
  have w2: "\<exists>out. mongo_backend_update (S6_env 0 [''TransientTransactionError''])
      array_iter_next (array_of S6_events) 5 [] = Some out
      \<and> upd_return out = - 1 \<and> upd_errno out = EAGAIN"
    using ne tr by (auto simp: S6_env_def)
  from update_outcomes[OF array_yields S6_all_lower c refl refl, of 0 "[]" 5 "[]"]
  have w3: "\<exists>out. mongo_backend_update (S6_env 0 []) array_iter_next (array_of S6_events) 5 [] =
      Some out \<and> upd_return out = - 1 \<and> upd_errno out = RBH_BACKEND_ERROR
      \<and> upd_backend_error out = ''mongoc: boom''"
    using ne tr msg by (auto simp: S6_env_def)
  from update_outcomes[OF array_yields S6_all_lower c refl refl, of 1 "[]" 5 "[]"]
  have w4: "\<exists>out. mongo_backend_update (S6_env 1 []) array_iter_next (array_of S6_events) 5 [] =
      Some out \<and> upd_return out = 3 \<and> upd_errno out = 5
      \<and> upd_executed out =
          Some \<lparr>bulk_ordered = False,
                bulk_ops = [Update_one ''X'' (Pull_ns ''P1'' ''a'') False,
                            Update_one ''X'' (Add_to_set_ns ''P1'' ''a'') True,
                            Update_one ''X'' (Pull_ns ''P1'' ''a'') False,
                            Remove_one ''X'']\<rparr>"
    using ne len ops by (auto simp: S6_env_def)
  from w1 w2 w3 w4 show ?thesis by blast
qed

text \<open>
  C10. For an iterator that yields the events \<open>evs\<close> and then ends: if one of the events
  cannot be lowered (the selector, a document or an operation cannot be built, or the
  driver refuses an operation), \<open>update\<close> returns \<open>-1\<close> and no bulk operation is executed;
  the error buffer is left alone.
\<close>

theorem update_lowering_failure:
  assumes "yields fsevents_next fsevents evs"
    and "i < length evs"
    and "\<not> lowers (env_version env) (env_lowering env i) (evs ! i)"
  shows "\<exists>out. mongo_backend_update env fsevents_next fsevents errno backend_error = Some out
           \<and> upd_return out = - 1 \<and> upd_executed out = None
           \<and> upd_backend_error out = backend_error"
proof (cases "mongoc_collection_create_bulk_operation (env_version env) (env_create_opts env)
                (env_create env) False errno")
  case (Pair b e)
  show ?thesis
  proof (cases b)
    case None
    with Pair show ?thesis by (simp add: mongo_backend_update_def)
  next
    case (Some bulk)
    from init_fail[where env = "env_lowering env" and v = "env_version env" and i = i
        and evs = evs and s = fsevents and nxt = fsevents_next and bulk = bulk and errno = e]
      assms obtain b' s' e' where
      "mongo_bulk_init_from_fsevents (env_version env) (env_lowering env) fsevents_next bulk
         fsevents e = Some (- 1, b', s', e')" by blast
    with Pair Some show ?thesis by (simp add: mongo_backend_update_def)
  qed
qed

theorem update_lowering_failure_witness:
  "1 < length S6_events
   \<and> \<not> lowers mongoc_1_17 (all_taken\<lparr>lw_update_doc := False\<rparr>) (S6_events ! 1)
   \<and> (\<exists>out. mongo_backend_update
              ((S6_env 1 [])\<lparr>env_lowering :=
                 (\<lambda>n. if n = 1 then all_taken\<lparr>lw_update_doc := False\<rparr> else all_taken)\<rparr>)
              array_iter_next (array_of S6_events) 5 [] = Some out
        \<and> upd_return out = - 1 \<and> upd_executed out = None)"
proof -
  have l: "1 < length S6_events"
    by (simp add: S6_events_def)
  have f: "\<not> lowers mongoc_1_17 (all_taken\<lparr>lw_update_doc := False\<rparr>) (S6_events ! 1)"
    by (simp add: lowers_def mongo_bulk_append_fsevent_def append_update_def
      append_result_def bson_update_from_fsevent_def all_taken_def S6_events_def S6_event_def)
  have f': "\<not> lowers
      (env_version ((S6_env 1 [])\<lparr>env_lowering :=
          (\<lambda>n. if n = 1 then all_taken\<lparr>lw_update_doc := False\<rparr> else all_taken)\<rparr>))
      (env_lowering ((S6_env 1 [])\<lparr>env_lowering :=
          (\<lambda>n. if n = 1 then all_taken\<lparr>lw_update_doc := False\<rparr> else all_taken)\<rparr>) 1)
      (S6_events ! 1)"
    using f by (simp add: S6_env_def)
  from update_lowering_failure[OF array_yields l f', of 5 "[]"] l f
  show ?thesis by blast
qed

section \<open>Properties of the iterators\<close>

lemma size_pred_pos:
  assumes "0 < k" and "k \<le> SIZE_MAX"
  shows "size_pred k = k - 1"
proof -
  from assms(1) have "k + SIZE_MAX = (k - 1) + (SIZE_MAX + 1)" by simp
  then have "size_pred k = (k - 1) mod (SIZE_MAX + 1)"
    unfolding size_pred_def by (metis mod_add_self2)
  with assms show ?thesis by simp
qed

lemma chunk_drain_once:
  "yields nxt s xs \<Longrightarrow>
   \<exists>ch s'. chunk_drain nxt \<lparr>chunk_first = f, chunk_count = c, chunk_once = True\<rparr> s e =
       (take c xs, ch, s', ENODATA) \<and> yields nxt s' (drop c xs)"
proof (induction c arbitrary: xs s e)
  case 0
  then show ?case
    by (subst chunk_drain.simps) (simp add: chunk_iter_next_def)
next
  case (Suc c)
  show ?case
  proof (cases xs)
    case Nil
    with Suc.prems have "nxt s 0 = (None, s, ENODATA)" by simp
    with Nil Suc.prems show ?thesis
      by (subst chunk_drain.simps) (simp add: chunk_iter_next_def ENODATA_def)
  next
    case (Cons x xs')
    with Suc.prems obtain t where t: "nxt s 0 = (Some x, t, 0)" "yields nxt t xs'"
      by (auto split: prod.splits option.splits)
    from Suc.IH[OF t(2), of e] obtain ch s' where
      "chunk_drain nxt \<lparr>chunk_first = f, chunk_count = c, chunk_once = True\<rparr> t e =
         (take c xs', ch, s', ENODATA)" "yields nxt s' (drop c xs')"
      by blast
    with Cons t show ?thesis
      by (subst chunk_drain.simps) (simp add: chunk_iter_next_def)
  qed
qed

lemma chunk_drain_fresh:
  assumes "yields nxt s xs"
  shows "\<exists>ch s'. chunk_drain nxt \<lparr>chunk_first = Some x, chunk_count = c, chunk_once = False\<rparr> s e =
       (x # take c xs, ch, s', ENODATA) \<and> yields nxt s' (drop c xs)"
proof -
  from chunk_drain_once[OF assms, of "Some x" c e] obtain ch s' where
    "chunk_drain nxt \<lparr>chunk_first = Some x, chunk_count = c, chunk_once = True\<rparr> s e =
       (take c xs, ch, s', ENODATA)" "yields nxt s' (drop c xs)"
    by blast
  then show ?thesis
    by (subst chunk_drain.simps) (simp add: chunk_iter_next_def)
qed

lemma chunkify_drain_yields:
  "yields nxt s xs \<Longrightarrow> 0 < k \<Longrightarrow> k \<le> SIZE_MAX \<Longrightarrow>
   \<exists>s'. chunkify_drain nxt k s e = Some (spec_chunks k xs, s', ENODATA)"
proof (induction k xs arbitrary: s e rule: spec_chunks.induct)
  case (1 k xs)
  show ?case
  proof (cases xs)
    case Nil
    with "1.prems" have "nxt s 0 = (None, s, ENODATA)" by simp
    with Nil show ?thesis
      by (subst chunkify_drain.simps, subst spec_chunks.simps)
         (simp add: chunkify_iter_next_def ENODATA_def)
  next
    case (Cons x xs')
    with "1.prems" obtain t where t: "nxt s 0 = (Some x, t, 0)" "yields nxt t xs'"
      by (auto split: prod.splits option.splits)
    from chunk_drain_fresh[OF t(2), of x "k - 1" e] obtain ch s' where
      d: "chunk_drain nxt \<lparr>chunk_first = Some x, chunk_count = k - 1, chunk_once = False\<rparr> t e =
         (x # take (k - 1) xs', ch, s', ENODATA)" "yields nxt s' (drop (k - 1) xs')"
      by blast
    have tk: "x # take (k - 1) xs' = take k xs" and dk: "drop (k - 1) xs' = drop k xs"
      using Cons "1.prems"(2) by (cases k; simp)+
    from "1.prems"(2) Cons have ne: "\<not> (k = 0 \<or> xs = [])" by simp
    from "1.IH"[OF ne d(2)[unfolded dk] "1.prems"(2,3), of ENODATA] obtain s'' where
      r: "chunkify_drain nxt k s' ENODATA = Some (spec_chunks k (drop k xs), s'', ENODATA)"
      by blast
    show ?thesis
      apply (subst chunkify_drain.simps)
      apply (subst spec_chunks.simps)
      using ne d(1) tk r size_pred_pos[OF "1.prems"(2,3)]
      by (simp add: chunkify_iter_next_def t)
  qed
qed

lemma concat_spec_chunks: "0 < k \<Longrightarrow> concat (spec_chunks k xs) = xs"
proof (induction k xs rule: spec_chunks.induct)
  case (1 k xs)
  then show ?case by (subst spec_chunks.simps) simp
qed

lemma length_spec_chunks: "c \<in> set (spec_chunks k xs) \<Longrightarrow> c \<noteq> [] \<and> length c \<le> k"
proof (induction k xs rule: spec_chunks.induct)
  case (1 k xs)
  from "1.prems" have ne: "\<not> (k = 0 \<or> xs = [])"
    by (subst (asm) spec_chunks.simps) (auto split: if_splits)
  with "1.prems" have "c = take k xs \<or> c \<in> set (spec_chunks k (drop k xs))"
    by (subst (asm) spec_chunks.simps) simp
  then show ?case
  proof
    assume "c = take k xs"
    with ne show ?thesis by auto
  next
    assume "c \<in> set (spec_chunks k (drop k xs))"
    with "1.IH"[OF ne] show ?thesis by simp
  qed
qed


text \<open>
  C4. For an underlying iterator that yields \<open>xs\<close> and a chunk size \<open>0 < k\<close> (that
  fits a \<open>size_t\<close>), a consumer that exhausts each chunk before it asks for the next one
  comes to an end, and what it was given chunk by chunk is \<open>xs\<close> cut into pieces of \<open>k\<close>
  elements: every chunk iterator yields at least one and at most \<open>k\<close> elements before it
  ends, and the chunks put end to end are \<open>xs\<close>.
\<close>

theorem chunkify_totality:
  assumes "yields subiter_next subiter xs" and "0 < k" and "k \<le> SIZE_MAX"
  shows "(\<exists>subiter'. chunkify_drain subiter_next k subiter errno =
            Some (spec_chunks k xs, subiter', ENODATA))
     \<and> concat (spec_chunks k xs) = xs
     \<and> (\<forall>c \<in> set (spec_chunks k xs). c \<noteq> [] \<and> length c \<le> k)"
  using chunkify_drain_yields[OF assms] concat_spec_chunks[OF assms(2)] length_spec_chunks
  by blast

theorem chunkify_totality_witness:
  "yields array_iter_next (array_of ''abcde'') ''abcde'' \<and> (2 :: nat) \<le> SIZE_MAX
   \<and> (\<exists>subiter'. chunkify_drain array_iter_next 2 (array_of ''abcde'') 0 =
          Some ([''ab'', ''cd'', ''e''], subiter', ENODATA))"
proof -
  have k: "(0 :: nat) < 2" "(2 :: nat) \<le> SIZE_MAX"
    by (simp_all add: SIZE_MAX_def)
  have c: "spec_chunks 2 ''abcde'' = [''ab'', ''cd'', ''e'']"
    by code_simp
  have "\<exists>subiter'. chunkify_drain array_iter_next 2 (array_of ''abcde'') 0 =
      Some ([''ab'', ''cd'', ''e''], subiter', ENODATA)"
    using chunkify_totality[OF array_yields k, of "''abcde''" 0] unfolding c by blast
  with k(2) array_yields[of "''abcde''"] show ?thesis by blast
qed

text \<open>
  C3. Advancing the outer iterator does read the underlying stream: on the array
  \<open>ab\<close> the first \<open>next\<close> of the chunkify iterator moves the array iterator from index 0
  to index 1.
\<close>

theorem chunkify_next_consumes:
  "arr_index (array_of ''ab'') = 0
   \<and> arr_index (fst (snd (chunkify_iter_next array_iter_next True 2 (array_of ''ab'') 0))) = 1"
  by (simp add: chunkify_iter_next_def array_iter_next_def array_of_def)

text \<open>
  C3, as the code has it. When the underlying stream is about to yield \<open>x\<close>, advancing
  the outer iterator reads exactly that one element, which becomes the first element of
  the new chunk; the first step of the new chunk hands \<open>x\<close> out without reading the
  stream. For a previous chunk that has handed out its first element and has not used up
  its count, \<open>x\<close> is the element it would have yielded at that point: the element at the
  boundary becomes the first of the new chunk. A previous chunk that was never advanced
  would have yielded the first element it holds, without reading the stream. Every step of
  a chunk iterator leaves the stream alone or reads it once.
\<close>

theorem chunkify_shares_cursor:
  assumes "yields subiter_next subiter (x # xs)" and "0 < k" and "k \<le> SIZE_MAX"
  shows "\<exists>subiter'.
       chunkify_iter_next subiter_next True k subiter errno =
         (Some \<lparr>chunk_first = Some x, chunk_count = k - 1, chunk_once = False\<rparr>,
          subiter', errno)
     \<and> yields subiter_next subiter' xs
     \<and> chunk_iter_next subiter_next
         \<lparr>chunk_first = Some x, chunk_count = k - 1, chunk_once = False\<rparr> subiter' errno =
         (Some x, \<lparr>chunk_first = Some x, chunk_count = k - 1, chunk_once = True\<rparr>,
          subiter', errno)
     \<and> (\<forall>previous. chunk_once previous \<and> 0 < chunk_count previous \<longrightarrow>
           chunk_iter_next subiter_next previous subiter errno =
             (Some x, previous\<lparr>chunk_count := chunk_count previous - 1\<rparr>, subiter', errno))
     \<and> (\<forall>previous. \<not> chunk_once previous \<longrightarrow>
           chunk_iter_next subiter_next previous subiter errno =
             (chunk_first previous, previous\<lparr>chunk_once := True\<rparr>, subiter, errno))
     \<and> (\<forall>chunk s e. fst (snd (snd (chunk_iter_next subiter_next chunk s e))) = s
           \<or> fst (snd (snd (chunk_iter_next subiter_next chunk s e))) =
               fst (snd (subiter_next s 0)))"
proof -
  from assms(1) obtain t where t: "subiter_next subiter 0 = (Some x, t, 0)"
    "yields subiter_next t xs"
    by (auto split: prod.splits option.splits)
  have "fst (snd (snd (chunk_iter_next subiter_next chunk s e))) = s
      \<or> fst (snd (snd (chunk_iter_next subiter_next chunk s e))) = fst (snd (subiter_next s 0))"
    for chunk s e
    by (simp add: chunk_iter_next_def Let_def split: prod.splits)
  moreover have "chunkify_iter_next subiter_next True k subiter errno =
         (Some \<lparr>chunk_first = Some x, chunk_count = k - 1, chunk_once = False\<rparr>, t, errno)"
    using t size_pred_pos[OF assms(2,3)] by (simp add: chunkify_iter_next_def)
  moreover have "chunk_iter_next subiter_next
         \<lparr>chunk_first = Some x, chunk_count = k - 1, chunk_once = False\<rparr> t errno =
         (Some x, \<lparr>chunk_first = Some x, chunk_count = k - 1, chunk_once = True\<rparr>, t, errno)"
    by (simp add: chunk_iter_next_def)
  moreover have "\<forall>previous. chunk_once previous \<and> 0 < chunk_count previous \<longrightarrow>
           chunk_iter_next subiter_next previous subiter errno =
             (Some x, previous\<lparr>chunk_count := chunk_count previous - 1\<rparr>, t, errno)"
    using t by (simp add: chunk_iter_next_def)
  moreover have "\<forall>previous. \<not> chunk_once previous \<longrightarrow>
           chunk_iter_next subiter_next previous subiter errno =
             (chunk_first previous, previous\<lparr>chunk_once := True\<rparr>, subiter, errno)"
    by (simp add: chunk_iter_next_def)
  ultimately show ?thesis
    using t(2) by blast
qed

theorem chunkify_shares_cursor_witness:
  "yields array_iter_next (array_of ''abcde'') ''abcde'' \<and> (3 :: nat) \<le> SIZE_MAX
   \<and> chunkify_iter_next array_iter_next True 3 (array_of ''abcde'') 0 =
       (Some \<lparr>chunk_first = Some (CHR ''a''), chunk_count = 2, chunk_once = False\<rparr>,
        (array_of ''abcde'')\<lparr>arr_index := 1\<rparr>, 0)"
proof -
  have k: "(0 :: nat) < 3" "(3 :: nat) \<le> SIZE_MAX"
    by (simp_all add: SIZE_MAX_def)
  have y: "yields array_iter_next (array_of ''abcde'') (CHR ''a'' # ''bcde'')"
    using array_yields[of "''abcde''"] by simp
  have n: "array_iter_next (array_of ''abcde'') 0 =
      (Some (CHR ''a''), (array_of ''abcde'')\<lparr>arr_index := 1\<rparr>, 0)"
    by (simp add: array_iter_next_def array_of_def)
  from chunkify_shares_cursor[OF y k, of 0] n k(2) array_yields[of "''abcde''"]
  show ?thesis by (auto simp: chunkify_iter_next_def)
qed

lemma array_errno_rule: "errno_rule array_iter_next"
  by (simp add: errno_rule_def array_iter_next_def ENODATA_def)

lemma array_next_rule:
  "case array_iter_next array errno of
     (Some x, array', errno') \<Rightarrow> errno' = errno
   | (None, array', errno') \<Rightarrow> errno' = ENODATA"
  by (simp add: array_iter_next_def)

lemma errno_ruleD:
  "errno_rule nxt \<Longrightarrow> nxt s 0 = (r, s', e) \<Longrightarrow> (r = None \<longleftrightarrow> e \<noteq> 0)"
  by (auto simp: errno_rule_def split: option.splits prod.splits dest!: spec[of _ s])

lemma chunkify_first:
  assumes "errno_rule nxt"
    and "chunkify_iter_next nxt malloc_ok k s0 e0 = (Some c, s1, e1)"
  shows "chunk_first c \<noteq> None"
proof -
  obtain r s' e where n: "nxt s0 0 = (r, s', e)" by (rule prod_cases3)
  from errno_ruleD[OF assms(1) n] assms(2) n show ?thesis
    by (auto simp: chunkify_iter_next_def split: if_splits)
qed

lemma chunk_next_rule:
  assumes "errno_rule nxt" and "chunk_first c \<noteq> None"
    and "chunk_iter_next nxt c s e = (r, c', s', e')"
  shows "chunk_first c' = chunk_first c \<and> (r \<noteq> None \<longrightarrow> e' = e) \<and> (r = None \<longrightarrow> e' \<noteq> 0)"
proof -
  obtain r0 s0 e0 where n: "nxt s 0 = (r0, s0, e0)" by (rule prod_cases3)
  from errno_ruleD[OF assms(1) n] assms(2,3) n show ?thesis
    by (auto simp: chunk_iter_next_def ENODATA_def split: if_splits)
qed

lemma tee_next_rule:
  assumes "errno_rule nxt" and "None \<notin> set (tee_queue tee)"
    and "\<forall>c. clone = Some c \<longrightarrow> None \<notin> set (tee_queue c)"
    and "tee_iter_next nxt retry_ok share_ok tee clone s e = (r, tee', clone', s', e')"
  shows "None \<notin> set (tee_queue tee') \<and> (\<forall>c. clone' = Some c \<longrightarrow> None \<notin> set (tee_queue c))
       \<and> (r \<noteq> None \<longrightarrow> e' = e) \<and> (r = None \<longrightarrow> e' \<noteq> 0)"
proof (cases "tee_queue tee")
  case (Cons x q)
  with assms(2,3,4) show ?thesis
    by (auto simp: tee_iter_next_def)
next
  case Nil
  obtain r0 s0 e0 where n: "nxt s 0 = (r0, s0, e0)" by (rule prod_cases3)
  note d = errno_ruleD[OF assms(1) n]
  show ?thesis
  proof (cases clone)
    case None
    with Nil assms(2,4) n d show ?thesis
      by (auto simp: tee_iter_next_def tee_iter_next_pending_def split: if_splits)
  next
    case (Some c)
    with assms(3) have c: "None \<notin> set (tee_queue c)" by simp
    from Nil Some assms(2,4) n d c show ?thesis
      by (auto simp: tee_iter_next_def tee_iter_next_pending_def tee_iter_share_def
          rbh_queue_push_def ENOMEM_def split: if_splits)
  qed
qed

lemma chunk_next_none:
  assumes "errno_rule nxt" and "chunk_first c \<noteq> None"
    and "chunk_iter_next nxt c s e = (None, c', s', e')"
  shows "chunk_once c
     \<and> (if chunk_count c = 0 then e' = ENODATA \<and> s' = s else nxt s 0 = (None, s', e'))"
proof -
  obtain r0 s0 e0 where n: "nxt s 0 = (r0, s0, e0)" by (rule prod_cases3)
  from errno_ruleD[OF assms(1) n] assms(2,3) n show ?thesis
    by (auto simp: chunk_iter_next_def split: if_splits)
qed

lemma tee_next_none:
  assumes "errno_rule nxt" and "None \<notin> set (tee_queue tee)"
    and "tee_iter_next nxt retry_ok share_ok tee clone s e = (None, tee', clone', s', e')"
  shows "tee_queue tee = []
     \<and> ((\<exists>c. clone = Some c \<and> tee_next c \<noteq> None \<and> \<not> retry_ok \<and> e' = ENOMEM \<and> s' = s)
        \<or> (tee_next tee = None \<and> nxt s 0 = (None, s', e')))"
proof (cases "tee_queue tee")
  case (Cons x q)
  with assms(2,3) show ?thesis
    by (auto simp: tee_iter_next_def)
next
  case Nil
  obtain r0 s0 e0 where n: "nxt s 0 = (r0, s0, e0)" by (rule prod_cases3)
  note d = errno_ruleD[OF assms(1) n]
  show ?thesis
  proof (cases clone)
    case None
    with Nil assms(3) n d show ?thesis
      by (auto simp: tee_iter_next_def tee_iter_next_pending_def split: if_splits)
  next
    case (Some c)
    from Nil Some assms(3) n d show ?thesis
      by (auto simp: tee_iter_next_def tee_iter_next_pending_def tee_iter_share_def
          rbh_queue_push_def split: if_splits)
  qed
qed

lemma chunk_propagates:
  assumes "errno_rule nxt" and "chunk_once c" and "chunk_count c \<noteq> 0"
    and "nxt s 0 = (None, s1, e1)"
  shows "chunk_iter_next nxt c s e = (None, c, s1, e1)"
proof -
  from errno_ruleD[OF assms(1,4)] have "e1 \<noteq> 0" by simp
  with assms(2,3,4) show ?thesis by (simp add: chunk_iter_next_def)
qed

lemma tee_propagates:
  assumes "errno_rule nxt" and "tee_queue tee = []" and "tee_next tee = None"
    and "retry_ok \<or> (\<forall>c. clone = Some c \<longrightarrow> tee_next c = None)"
    and "nxt s 0 = (None, s1, e1)"
  shows "case tee_iter_next nxt retry_ok share_ok tee clone s e of
           (r, tee', clone', s', e') \<Rightarrow> r = None \<and> tee' = tee \<and> s' = s1 \<and> e' = e1"
proof -
  from errno_ruleD[OF assms(1,5)] have "e1 \<noteq> 0" by simp
  with assms(2,3,4,5) show ?thesis
    by (auto simp: tee_iter_next_def tee_iter_next_pending_def tee_iter_share_def
        rbh_queue_push_def split: option.splits)
qed

text \<open>
  C7. Let the underlying iterator obey the errno rule when it is called with \<open>errno\<close>
  cleared. Then, whatever \<open>errno\<close> the caller holds:
  the array iterator leaves \<open>errno\<close> alone when it yields an element and sets \<open>ENODATA\<close>
  when it yields nothing;
  a chunk iterator made by the chunkify iterator has a first element and keeps it; a step
  that yields an element leaves \<open>errno\<close> alone; a step yields nothing only after the
  first element was handed out, and then \<open>errno\<close> is \<open>ENODATA\<close>, the stream untouched,
  when the chunk has used up its count, and otherwise it is exactly the code with which
  the underlying iterator returned NULL in that step (\<open>ENODATA\<close> at the end of the data,
  the code of the failure otherwise);
  a new tee sibling has an empty queue and the queues of the two siblings never come to
  hold NULL; on such siblings a step that yields an element leaves \<open>errno\<close> alone; a step
  yields nothing only when the sibling's queue is empty, and then either the retried
  share found no memory, nothing was read and \<open>errno\<close> is \<open>ENOMEM\<close>, or \<open>errno\<close> is
  exactly the code with which the underlying iterator returned NULL in that step.
  Conversely, when the underlying iterator returns NULL to a chunk iterator that still
  has count left, or to a tee sibling with nothing queued or pending, that step yields
  nothing and hands the caller that very code.
  In every case \<open>errno\<close> is set when nothing is yielded; it is one number, so it says
  no-more-data or names the failure, never both.
\<close>

theorem next_errno_rule:
  assumes "errno_rule subiter_next"
  shows "(case array_iter_next array errno_a of
            (Some x, array', errno') \<Rightarrow> errno' = errno_a
          | (None, array', errno') \<Rightarrow> errno' = ENODATA)
     \<and> (chunkify_iter_next subiter_next malloc_ok k subiter0 errno0 = (Some chunk0, subiter1, errno1)
          \<longrightarrow> chunk_first chunk0 \<noteq> None)
     \<and> (chunk_first chunk \<noteq> None \<longrightarrow>
          (case chunk_iter_next subiter_next chunk subiter_c errno_c of
             (r, chunk', subiter', errno') \<Rightarrow>
               chunk_first chunk' = chunk_first chunk
               \<and> (r \<noteq> None \<longrightarrow> errno' = errno_c)
               \<and> (r = None \<longrightarrow> errno' \<noteq> 0 \<and> chunk_once chunk
                    \<and> (if chunk_count chunk = 0 then errno' = ENODATA \<and> subiter' = subiter_c
                        else subiter_next subiter_c 0 = (None, subiter', errno')))))
     \<and> (tee_iter_new queue_ok new_ok = Inr (new_tee :: 'a tee_iterator)
          \<longrightarrow> tee_queue new_tee = [])
     \<and> (None \<notin> set (tee_queue tee) \<and> (\<forall>c. clone = Some c \<longrightarrow> None \<notin> set (tee_queue c)) \<longrightarrow>
          (case tee_iter_next subiter_next retry_ok share_ok tee clone subiter errno of
             (r, tee', clone', subiter', errno') \<Rightarrow>
               None \<notin> set (tee_queue tee')
               \<and> (\<forall>c. clone' = Some c \<longrightarrow> None \<notin> set (tee_queue c))
               \<and> (r \<noteq> None \<longrightarrow> errno' = errno)
               \<and> (r = None \<longrightarrow> errno' \<noteq> 0 \<and> tee_queue tee = []
                    \<and> ((\<exists>c. clone = Some c \<and> tee_next c \<noteq> None \<and> \<not> retry_ok
                            \<and> errno' = ENOMEM \<and> subiter' = subiter)
                        \<or> (tee_next tee = None
                            \<and> subiter_next subiter 0 = (None, subiter', errno'))))))
     \<and> (chunk_once chunk_p \<and> chunk_count chunk_p \<noteq> 0
          \<and> subiter_next subiter_p 0 = (None, subiter_q, errno_q) \<longrightarrow>
          chunk_iter_next subiter_next chunk_p subiter_p errno_p =
            (None, chunk_p, subiter_q, errno_q))
     \<and> (tee_queue tee_p = [] \<and> tee_next tee_p = None
          \<and> (retry_p \<or> (\<forall>c. clone_p = Some c \<longrightarrow> tee_next c = None))
          \<and> subiter_next subiter_p 0 = (None, subiter_q, errno_q) \<longrightarrow>
          (case tee_iter_next subiter_next retry_p share_p tee_p clone_p subiter_p errno_p of
             (r, tee', clone', subiter', errno') \<Rightarrow>
               r = None \<and> tee' = tee_p \<and> subiter' = subiter_q \<and> errno' = errno_q))"
proof (intro conjI impI)
  show "case array_iter_next array errno_a of
          (Some x, array', errno') \<Rightarrow> errno' = errno_a
        | (None, array', errno') \<Rightarrow> errno' = ENODATA"
    by (rule array_next_rule)
next
  assume "chunkify_iter_next subiter_next malloc_ok k subiter0 errno0 =
      (Some chunk0, subiter1, errno1)"
  then show "chunk_first chunk0 \<noteq> None"
    by (rule chunkify_first[OF assms])
next
  assume f: "chunk_first chunk \<noteq> None"
  obtain r c' s' e' where
    n: "chunk_iter_next subiter_next chunk subiter_c errno_c = (r, c', s', e')"
    by (rule prod_cases4)
  note a = chunk_next_rule[OF assms f n]
  have b: "r = None \<longrightarrow> chunk_once chunk
      \<and> (if chunk_count chunk = 0 then e' = ENODATA \<and> s' = subiter_c
          else subiter_next subiter_c 0 = (None, s', e'))"
  proof
    assume "r = None"
    with n have "chunk_iter_next subiter_next chunk subiter_c errno_c = (None, c', s', e')"
      by simp
    then show "chunk_once chunk
      \<and> (if chunk_count chunk = 0 then e' = ENODATA \<and> s' = subiter_c
          else subiter_next subiter_c 0 = (None, s', e'))"
      by (rule chunk_next_none[OF assms f])
  qed
  from a b
  show "case chunk_iter_next subiter_next chunk subiter_c errno_c of
          (r, chunk', subiter', errno') \<Rightarrow>
            chunk_first chunk' = chunk_first chunk
            \<and> (r \<noteq> None \<longrightarrow> errno' = errno_c)
            \<and> (r = None \<longrightarrow> errno' \<noteq> 0 \<and> chunk_once chunk
                 \<and> (if chunk_count chunk = 0 then errno' = ENODATA \<and> subiter' = subiter_c
                     else subiter_next subiter_c 0 = (None, subiter', errno')))"
    unfolding n by (simp only: prod.case) blast
next
  assume "tee_iter_new queue_ok new_ok = Inr new_tee"
  then show "tee_queue new_tee = []"
    by (auto simp: tee_iter_new_def split: if_splits)
next
  assume q: "None \<notin> set (tee_queue tee) \<and> (\<forall>c. clone = Some c \<longrightarrow> None \<notin> set (tee_queue c))"
  obtain r t' c' s' e' where
    n: "tee_iter_next subiter_next retry_ok share_ok tee clone subiter errno =
        (r, t', c', s', e')"
    by (rule prod_cases5)
  from q have q1: "None \<notin> set (tee_queue tee)"
    and q2: "\<forall>c. clone = Some c \<longrightarrow> None \<notin> set (tee_queue c)"
    by simp_all
  note a = tee_next_rule[OF assms q1 q2 n]
  have b: "r = None \<longrightarrow> tee_queue tee = []
      \<and> ((\<exists>c. clone = Some c \<and> tee_next c \<noteq> None \<and> \<not> retry_ok \<and> e' = ENOMEM
              \<and> s' = subiter)
          \<or> (tee_next tee = None \<and> subiter_next subiter 0 = (None, s', e')))"
  proof
    assume "r = None"
    with n have "tee_iter_next subiter_next retry_ok share_ok tee clone subiter errno =
        (None, t', c', s', e')"
      by simp
    then show "tee_queue tee = []
      \<and> ((\<exists>c. clone = Some c \<and> tee_next c \<noteq> None \<and> \<not> retry_ok \<and> e' = ENOMEM
              \<and> s' = subiter)
          \<or> (tee_next tee = None \<and> subiter_next subiter 0 = (None, s', e')))"
      by (rule tee_next_none[OF assms q1])
  qed
  from a b
  show "case tee_iter_next subiter_next retry_ok share_ok tee clone subiter errno of
          (r, tee', clone', subiter', errno') \<Rightarrow>
            None \<notin> set (tee_queue tee')
            \<and> (\<forall>c. clone' = Some c \<longrightarrow> None \<notin> set (tee_queue c))
            \<and> (r \<noteq> None \<longrightarrow> errno' = errno)
            \<and> (r = None \<longrightarrow> errno' \<noteq> 0 \<and> tee_queue tee = []
                 \<and> ((\<exists>c. clone = Some c \<and> tee_next c \<noteq> None \<and> \<not> retry_ok
                         \<and> errno' = ENOMEM \<and> subiter' = subiter)
                     \<or> (tee_next tee = None
                         \<and> subiter_next subiter 0 = (None, subiter', errno'))))"
    unfolding n by (simp only: prod.case) blast
next
  assume "chunk_once chunk_p \<and> chunk_count chunk_p \<noteq> 0
      \<and> subiter_next subiter_p 0 = (None, subiter_q, errno_q)"
  then show "chunk_iter_next subiter_next chunk_p subiter_p errno_p =
      (None, chunk_p, subiter_q, errno_q)"
    using chunk_propagates[OF assms] by blast
next
  assume h: "tee_queue tee_p = [] \<and> tee_next tee_p = None
      \<and> (retry_p \<or> (\<forall>c. clone_p = Some c \<longrightarrow> tee_next c = None))
      \<and> subiter_next subiter_p 0 = (None, subiter_q, errno_q)"
  then have h1: "tee_queue tee_p = []" and h2: "tee_next tee_p = None"
    and h3: "retry_p \<or> (\<forall>c. clone_p = Some c \<longrightarrow> tee_next c = None)"
    and h4: "subiter_next subiter_p 0 = (None, subiter_q, errno_q)"
    by blast+
  show "case tee_iter_next subiter_next retry_p share_p tee_p clone_p subiter_p errno_p of
          (r, tee', clone', subiter', errno') \<Rightarrow>
            r = None \<and> tee' = tee_p \<and> subiter' = subiter_q \<and> errno' = errno_q"
    by (rule tee_propagates[OF assms h1 h2 h3 h4])
qed

theorem next_errno_rule_witness:
  "errno_rule (array_iter_next :: (char array_iterator, char) iter_next)
   \<and> array_iter_next (array_of ''ab'') 7 = (Some (CHR ''a''), (array_of ''ab'')\<lparr>arr_index := 1\<rparr>, 7)
   \<and> chunk_iter_next array_iter_next
        \<lparr>chunk_first = Some (CHR ''a''), chunk_count = 1, chunk_once = True\<rparr>
        ((array_of ''ab'')\<lparr>arr_index := 2\<rparr>) 7 =
       (None, \<lparr>chunk_first = Some (CHR ''a''), chunk_count = 1, chunk_once = True\<rparr>,
        (array_of ''ab'')\<lparr>arr_index := 2\<rparr>, ENODATA)
   \<and> tee_iter_next array_iter_next True True \<lparr>tee_queue = [], tee_next = None\<rparr>
        (Some \<lparr>tee_queue = [], tee_next = None\<rparr>) (array_of ''ab'') 7 =
       (Some (CHR ''a''), \<lparr>tee_queue = [], tee_next = None\<rparr>,
        Some \<lparr>tee_queue = [Some (CHR ''a'')], tee_next = None\<rparr>,
        (array_of ''ab'')\<lparr>arr_index := 1\<rparr>, 7)"
proof -
  have r: "errno_rule (array_iter_next :: (char array_iterator, char) iter_next)"
    by (rule array_errno_rule)
  note w = next_errno_rule[OF r, where array = "array_of ''ab''" and errno_a = 7
      and chunk = "\<lparr>chunk_first = Some (CHR ''a''), chunk_count = 1, chunk_once = True\<rparr>"
      and subiter_c = "(array_of ''ab'')\<lparr>arr_index := 2\<rparr>" and errno_c = 7
      and tee = "\<lparr>tee_queue = [], tee_next = None\<rparr>"
      and clone = "Some \<lparr>tee_queue = [], tee_next = None\<rparr>"
      and subiter = "array_of ''ab''" and errno = 7 and retry_ok = True and share_ok = True]
  have a: "array_iter_next (array_of ''ab'') 7 =
      (Some (CHR ''a''), (array_of ''ab'')\<lparr>arr_index := 1\<rparr>, 7)"
    by (simp add: array_iter_next_def array_of_def)
  have c: "chunk_iter_next array_iter_next
        \<lparr>chunk_first = Some (CHR ''a''), chunk_count = 1, chunk_once = True\<rparr>
        ((array_of ''ab'')\<lparr>arr_index := 2\<rparr>) 7 =
       (None, \<lparr>chunk_first = Some (CHR ''a''), chunk_count = 1, chunk_once = True\<rparr>,
        (array_of ''ab'')\<lparr>arr_index := 2\<rparr>, ENODATA)"
    by (simp add: chunk_iter_next_def array_iter_next_def array_of_def ENODATA_def)
  have t: "tee_iter_next array_iter_next True True \<lparr>tee_queue = [], tee_next = None\<rparr>
        (Some \<lparr>tee_queue = [], tee_next = None\<rparr>) (array_of ''ab'') 7 =
       (Some (CHR ''a''), \<lparr>tee_queue = [], tee_next = None\<rparr>,
        Some \<lparr>tee_queue = [Some (CHR ''a'')], tee_next = None\<rparr>,
        (array_of ''ab'')\<lparr>arr_index := 1\<rparr>, 7)"
    by (simp add: tee_iter_next_def tee_iter_next_pending_def tee_iter_share_def
        rbh_queue_push_def array_iter_next_def array_of_def)
  from w r a c t show ?thesis by blast
qed

section \<open>Properties of the tee\<close>

lemma yields_drop_step:
  assumes "yields nxt s (drop n xs)" and "n < length xs"
  shows "\<exists>t. nxt s 0 = (Some (xs ! n), t, 0) \<and> yields nxt t (drop (Suc n) xs)"
proof -
  from assms(2) have "drop n xs = xs ! n # drop (Suc n) xs"
    by (simp add: Cons_nth_drop_Suc)
  with assms(1) show ?thesis
    by (auto split: prod.splits option.splits)
qed

lemma yields_drop_end:
  assumes "yields nxt s (drop n xs)" and "length xs \<le> n"
  shows "nxt s 0 = (None, s, ENODATA)"
  using assms by simp

lemma drop_take_Suc:
  "m \<le> n \<Longrightarrow> n < length xs \<Longrightarrow> drop m (take (Suc n) xs) = drop m (take n xs) @ [xs ! n]"
  by (simp add: take_Suc_conv_app_nth)

lemma drop_take_Cons:
  "n < m \<Longrightarrow> m \<le> length xs \<Longrightarrow> drop n (take m xs) = xs ! n # drop (Suc n) (take m xs)"
  by (metis Cons_nth_drop_Suc length_take min.absorb2 nth_take)

lemma tee_step0:
  assumes inv: "tee_inv nxt xs n m st"
    and call: "\<not> call_second call" "call_retry_ok call" "call_share_ok call"
  shows "tee_inv nxt xs (min (Suc n) (length xs)) m (snd (tee_call_next nxt call st))"
proof -
  from inv have b: "n \<le> length xs" "m \<le> length xs"
    and y: "yields nxt (ts_subiter st) (drop (max n m) xs)"
    and s: "ts_seen0 st = take n xs" "ts_seen1 st = take m xs"
    and q: "tee_queue (ts_tee0 st) = map Some (drop n (take m xs))"
      "tee_queue (ts_tee1 st) = map Some (drop m (take n xs))"
    and p: "tee_next (ts_tee0 st) = None" "tee_next (ts_tee1 st) = None"
    by (simp_all add: tee_inv_def)
  show ?thesis
  proof (cases "n < m")
    case True
    with b have nl: "n < length xs" by simp
    from True b have h: "drop n (take m xs) = xs ! n # drop (Suc n) (take m xs)"
      by (simp add: drop_take_Cons)
    from True have mx: "max n m = m" "max (Suc n) m = m" by simp_all
    from True have e: "drop m (take n xs) = []" "drop m (take (Suc n) xs) = []" by simp_all
    from nl have mn: "min (Suc n) (length xs) = Suc n" by simp
    show ?thesis
      unfolding mn using call b y s q p nl True
      by (simp add: tee_inv_def tee_call_next_def tee_iter_next_def h mx e seen_def
          take_Suc_conv_app_nth)
  next
    case False
    then have mx: "max n m = n" by simp
    from False have e: "drop n (take m xs) = []" by simp
    show ?thesis
    proof (cases "n < length xs")
      case True
      from yields_drop_step[OF y[unfolded mx] True] obtain t where
        t: "nxt (ts_subiter st) 0 = (Some (xs ! n), t, 0)" "yields nxt t (drop (Suc n) xs)"
        by blast
      from False have mx': "max (Suc n) m = Suc n" by simp
      from False have e': "drop (Suc n) (take m xs) = []" by simp
      from True have mn: "min (Suc n) (length xs) = Suc n" by simp
      from False True have dt: "drop m (take (Suc n) xs) = drop m (take n xs) @ [xs ! n]"
        by (simp add: drop_take_Suc)
      show ?thesis
        unfolding mn using call b s q p True t \<open>\<not> n < m\<close>
        by (simp add: tee_inv_def tee_call_next_def tee_iter_next_def tee_iter_next_pending_def
            tee_iter_share_def rbh_queue_push_def e e' mx' dt seen_def take_Suc_conv_app_nth)
    next
      case False
      with b have nl: "n = length xs" by simp
      from yields_drop_end[OF y[unfolded mx]] nl have
        t: "nxt (ts_subiter st) 0 = (None, ts_subiter st, ENODATA)" by simp
      from nl have mn: "min (Suc n) (length xs) = n" by simp
      show ?thesis
        unfolding mn using call b s q p t y
        by (simp add: tee_inv_def tee_call_next_def tee_iter_next_def tee_iter_next_pending_def
            e mx seen_def ENODATA_def)
    qed
  qed
qed


lemma tee_step1:
  assumes inv: "tee_inv nxt xs m n st"
    and call: "call_second call" "call_retry_ok call" "call_share_ok call"
  shows "tee_inv nxt xs m (min (Suc n) (length xs)) (snd (tee_call_next nxt call st))"
proof -
  from inv have b: "n \<le> length xs" "m \<le> length xs"
    and y: "yields nxt (ts_subiter st) (drop (max n m) xs)"
    and s: "ts_seen1 st = take n xs" "ts_seen0 st = take m xs"
    and q: "tee_queue (ts_tee1 st) = map Some (drop n (take m xs))"
      "tee_queue (ts_tee0 st) = map Some (drop m (take n xs))"
    and p: "tee_next (ts_tee0 st) = None" "tee_next (ts_tee1 st) = None"
    by (simp_all add: tee_inv_def max.commute)
  show ?thesis
  proof (cases "n < m")
    case True
    with b have nl: "n < length xs" by simp
    from True b have h: "drop n (take m xs) = xs ! n # drop (Suc n) (take m xs)"
      by (simp add: drop_take_Cons)
    from True have mx: "max n m = m" "max (Suc n) m = m" "max m n = m" "max m (Suc n) = m" by simp_all
    from True have e: "drop m (take n xs) = []" "drop m (take (Suc n) xs) = []" by simp_all
    from nl have mn: "min (Suc n) (length xs) = Suc n" by simp
    show ?thesis
      unfolding mn using call b y s q p nl True
      by (simp add: tee_inv_def tee_call_next_def tee_iter_next_def h mx e seen_def
          take_Suc_conv_app_nth)
  next
    case False
    then have mx: "max n m = n" "max m n = n" by simp_all
    from False have e: "drop n (take m xs) = []" by simp
    show ?thesis
    proof (cases "n < length xs")
      case True
      from yields_drop_step[OF y[unfolded mx(1)] True] obtain t where
        t: "nxt (ts_subiter st) 0 = (Some (xs ! n), t, 0)" "yields nxt t (drop (Suc n) xs)"
        by blast
      from False have mx': "max (Suc n) m = Suc n" "max m (Suc n) = Suc n" by simp_all
      from False have e': "drop (Suc n) (take m xs) = []" by simp
      from True have mn: "min (Suc n) (length xs) = Suc n" by simp
      from False True have dt: "drop m (take (Suc n) xs) = drop m (take n xs) @ [xs ! n]"
        by (simp add: drop_take_Suc)
      show ?thesis
        unfolding mn using call b s q p True t \<open>\<not> n < m\<close>
        by (simp add: tee_inv_def tee_call_next_def tee_iter_next_def tee_iter_next_pending_def
            tee_iter_share_def rbh_queue_push_def e e' mx' dt seen_def take_Suc_conv_app_nth)
    next
      case False
      with b have nl: "n = length xs" by simp
      from yields_drop_end[OF y[unfolded mx(1)]] nl have
        t: "nxt (ts_subiter st) 0 = (None, ts_subiter st, ENODATA)" by simp
      from nl have mn: "min (Suc n) (length xs) = n" by simp
      show ?thesis
        unfolding mn using call b s q p t y
        by (simp add: tee_inv_def tee_call_next_def tee_iter_next_def tee_iter_next_pending_def
            e mx seen_def ENODATA_def)
    qed
  qed
qed


lemma tee_run_inv:
  "tee_inv nxt xs n m st \<Longrightarrow> \<forall>c \<in> set calls. call_retry_ok c \<and> call_share_ok c \<Longrightarrow>
   tee_inv nxt xs (min (n + length (filter (\<lambda>c. \<not> call_second c) calls)) (length xs))
     (min (m + length (filter call_second calls)) (length xs)) (tee_run nxt calls st)"
proof (induction calls arbitrary: n m st)
  case Nil
  then show ?case by (simp add: tee_inv_def)
next
  case (Cons call calls)
  from Cons.prems(2) have ok: "call_retry_ok call" "call_share_ok call"
    and rest: "\<forall>c \<in> set calls. call_retry_ok c \<and> call_share_ok c"
    by simp_all
  show ?case
  proof (cases "call_second call")
    case True
    from tee_step1[OF Cons.prems(1) True ok]
    have "tee_inv nxt xs n (min (Suc m) (length xs)) (snd (tee_call_next nxt call st))" .
    moreover have "min (min (Suc m) (length xs) + length (filter call_second calls)) (length xs)
        = min (m + length (filter call_second (call # calls))) (length xs)"
      using True by (simp add: min_def)
    moreover have "length (filter (\<lambda>c. \<not> call_second c) (call # calls)) =
        length (filter (\<lambda>c. \<not> call_second c) calls)"
      using True by simp
    ultimately show ?thesis
      using Cons.IH[OF _ rest, of n "min (Suc m) (length xs)" "snd (tee_call_next nxt call st)"]
      by simp
  next
    case False
    from tee_step0[OF Cons.prems(1) False ok]
    have "tee_inv nxt xs (min (Suc n) (length xs)) m (snd (tee_call_next nxt call st))" .
    moreover have "min (min (Suc n) (length xs) + length (filter (\<lambda>c. \<not> call_second c) calls))
          (length xs)
        = min (n + length (filter (\<lambda>c. \<not> call_second c) (call # calls))) (length xs)"
      using False by (simp add: min_def)
    moreover have "length (filter call_second (call # calls)) =
        length (filter call_second calls)"
      using False by simp
    ultimately show ?thesis
      using Cons.IH[OF _ rest, of "min (Suc n) (length xs)" m "snd (tee_call_next nxt call st)"]
      by simp
  qed
qed

lemma tee_of_inv: "yields nxt s xs \<Longrightarrow> tee_inv nxt xs 0 0 (tee_of s e)"
  by (simp add: tee_inv_def tee_of_def)

lemma rbh_iter_tee_Inr:
  "rbh_iter_tee new0 new1 s e = Inr st \<Longrightarrow> st = tee_of s e"
  by (auto simp: rbh_iter_tee_def tee_iter_new_def tee_of_def split: if_splits sum.splits)

lemma take_drop_take:
  assumes "length (take m xs) \<le> length (take n xs)"
  shows "take m xs @ drop m (take n xs) = take n xs"
proof (cases "m \<le> n")
  case True
  then have "take m xs = take m (take n xs)" by (simp add: min_absorb1)
  then show ?thesis by (simp only: append_take_drop_id)
next
  case False
  with assms have "length xs \<le> n" by (simp add: min_def split: if_splits)
  with False show ?thesis by simp
qed

text \<open>
  C5, as the code has it. Let the source yield \<open>xs\<close>, and let every push on a queue find
  memory. After any interleaving of calls, \<open>n\<close> of them on the first sibling and \<open>m\<close> on the
  second, the first sibling has handed out the first \<open>n\<close> elements of \<open>xs\<close> (all of
  \<open>xs\<close> once \<open>n\<close> reaches its length) and the second the first \<open>m\<close>, in the order of
  the source; the queue of each sibling holds exactly the elements the other one has
  handed out and it has not: what the second sibling has seen, followed by its queue, is
  what the first has seen, whenever the second is not ahead, and the other way round.
\<close>

theorem tee_equivalence:
  assumes "yields subiter_next iterator xs"
    and "rbh_iter_tee new0 new1 iterator errno = Inr st0"
    and "\<forall>c \<in> set calls. call_retry_ok c \<and> call_share_ok c"
    and "st = tee_run subiter_next calls st0"
    and "n = length (filter (\<lambda>c. \<not> call_second c) calls)"
    and "m = length (filter call_second calls)"
  shows "ts_seen0 st = take n xs \<and> ts_seen1 st = take m xs
     \<and> tee_queue (ts_tee1 st) = map Some (drop m (take n xs))
     \<and> tee_queue (ts_tee0 st) = map Some (drop n (take m xs))
     \<and> (length (ts_seen1 st) \<le> length (ts_seen0 st) \<longrightarrow>
          map Some (ts_seen1 st) @ tee_queue (ts_tee1 st) = map Some (ts_seen0 st))
     \<and> (length (ts_seen0 st) \<le> length (ts_seen1 st) \<longrightarrow>
          map Some (ts_seen0 st) @ tee_queue (ts_tee0 st) = map Some (ts_seen1 st))"
proof -
  from assms(2) have st0: "st0 = tee_of iterator errno"
    by (rule rbh_iter_tee_Inr)
  let ?n = "min n (length xs)" and ?m = "min m (length xs)"
  from tee_run_inv[OF tee_of_inv[OF assms(1)] assms(3), of errno]
  have inv: "tee_inv subiter_next xs ?n ?m st"
    by (simp add: assms(4,5,6) st0)
  have t: "take ?n xs = take n xs" "take ?m xs = take m xs"
    by (simp_all add: min_def)
  have d: "drop ?m (take n xs) = drop m (take n xs)" "drop ?n (take m xs) = drop n (take m xs)"
    by (simp_all add: min_def)
  from inv have s: "ts_seen0 st = take n xs" "ts_seen1 st = take m xs"
    and q: "tee_queue (ts_tee1 st) = map Some (drop m (take n xs))"
      "tee_queue (ts_tee0 st) = map Some (drop n (take m xs))"
    by (simp_all only: tee_inv_def t d)
  have a1: "length (ts_seen1 st) \<le> length (ts_seen0 st) \<longrightarrow>
      map Some (ts_seen1 st) @ tee_queue (ts_tee1 st) = map Some (ts_seen0 st)"
    unfolding s q map_append[symmetric] using take_drop_take[of m xs n] by simp
  have a2: "length (ts_seen0 st) \<le> length (ts_seen1 st) \<longrightarrow>
      map Some (ts_seen0 st) @ tee_queue (ts_tee0 st) = map Some (ts_seen1 st)"
    unfolding s q map_append[symmetric] using take_drop_take[of n xs m] by simp
  from s q a1 a2 show ?thesis by (intro conjI)
qed

theorem tee_equivalence_witness:
  "yields array_iter_next (array_of [1, 2, 3 :: nat]) [1, 2, 3]
   \<and> rbh_iter_tee (True, True) (True, True) (array_of [1, 2, 3 :: nat]) 0 =
       Inr (tee_of (array_of [1, 2, 3]) 0 :: (nat array_iterator, nat) tee_state)
   \<and> ts_seen0 (tee_run array_iter_next [call0 True, call0 True, call1 True, call0 True]
        (tee_of (array_of [1, 2, 3 :: nat]) 0)) = [1, 2, 3]
   \<and> ts_seen1 (tee_run array_iter_next [call0 True, call0 True, call1 True, call0 True]
        (tee_of (array_of [1, 2, 3 :: nat]) 0)) = [1]
   \<and> tee_queue (ts_tee1 (tee_run array_iter_next [call0 True, call0 True, call1 True, call0 True]
        (tee_of (array_of [1, 2, 3 :: nat]) 0))) = [Some 2, Some 3]
   \<and> ts_seen1 (tee_run array_iter_next
        [call0 True, call0 True, call1 True, call0 True, call1 True, call1 True]
        (tee_of (array_of [1, 2, 3 :: nat]) 0)) = [1, 2, 3]"
proof -
  have i: "rbh_iter_tee (True, True) (True, True) (array_of [1, 2, 3 :: nat]) 0 =
      Inr (tee_of (array_of [1, 2, 3]) 0 :: (nat array_iterator, nat) tee_state)"
    by (simp add: rbh_iter_tee_def tee_iter_new_def tee_of_def)
  have ok1: "\<forall>c \<in> set [call0 True, call0 True, call1 True, call0 True].
      call_retry_ok c \<and> call_share_ok c"
    by (simp add: call0_def call1_def)
  have ok2: "\<forall>c \<in> set [call0 True, call0 True, call1 True, call0 True, call1 True, call1 True].
      call_retry_ok c \<and> call_share_ok c"
    by (simp add: call0_def call1_def)
  note a = tee_equivalence[OF array_yields i ok1 refl refl refl]
  note b = tee_equivalence[OF array_yields i ok2 refl refl refl]
  have n1: "length (filter (\<lambda>c. \<not> call_second c)
        [call0 True, call0 True, call1 True, call0 True]) = 3"
    and m1: "length (filter call_second [call0 True, call0 True, call1 True, call0 True]) = 1"
    and m2: "length (filter call_second
        [call0 True, call0 True, call1 True, call0 True, call1 True, call1 True]) = 3"
    by (simp_all add: call0_def call1_def)
  have t: "take 3 [1, 2, 3 :: nat] = [1, 2, 3]" "take 1 [1, 2, 3 :: nat] = [1]"
    "map Some (drop 1 [1, 2, 3 :: nat]) = [Some 2, Some 3]"
    by simp_all
  from a have "ts_seen0 (tee_run array_iter_next [call0 True, call0 True, call1 True, call0 True]
        (tee_of (array_of [1, 2, 3 :: nat]) 0)) = [1, 2, 3]"
    and "ts_seen1 (tee_run array_iter_next [call0 True, call0 True, call1 True, call0 True]
        (tee_of (array_of [1, 2, 3 :: nat]) 0)) = [1]"
    and "tee_queue (ts_tee1 (tee_run array_iter_next
        [call0 True, call0 True, call1 True, call0 True]
        (tee_of (array_of [1, 2, 3 :: nat]) 0))) = [Some 2, Some 3]"
    unfolding n1 m1 t by blast+
  moreover from b have "ts_seen1 (tee_run array_iter_next
        [call0 True, call0 True, call1 True, call0 True, call1 True, call1 True]
        (tee_of (array_of [1, 2, 3 :: nat]) 0)) = [1, 2, 3]"
    unfolding m2 t by blast
  ultimately show ?thesis
    using i array_yields[of "[1, 2, 3 :: nat]"] by (simp only: simp_thms)
qed

text \<open>
  C5. When the push of a share finds no memory the queue does not hold what the claim
  says: on the source \<open>[1, 2, 3]\<close>, after one call on the first sibling whose share
  fails, the first sibling has handed out \<open>1\<close>, the second nothing, and the queue of the
  second is empty; the element waits in the \<open>next\<close> slot of the second sibling.
\<close>

theorem tee_share_failure_leaves_queue_short:
  "ts_seen0 (tee_run array_iter_next [call0 False] (tee_of (array_of [1, 2, 3 :: nat]) 0)) = [1]
   \<and> ts_seen1 (tee_run array_iter_next [call0 False] (tee_of (array_of [1, 2, 3 :: nat]) 0)) = []
   \<and> tee_queue (ts_tee1 (tee_run array_iter_next [call0 False]
        (tee_of (array_of [1, 2, 3 :: nat]) 0))) = []
   \<and> tee_next (ts_tee1 (tee_run array_iter_next [call0 False]
        (tee_of (array_of [1, 2, 3 :: nat]) 0))) = Some 1"
  by (simp add: tee_call_next_def tee_iter_next_def tee_iter_next_pending_def tee_iter_share_def
      rbh_queue_push_def array_iter_next_def array_of_def tee_of_def call0_def seen_def)

text \<open>
  What happens next is outside the statement above. The second sibling takes the
  pending element from its slot through \<open>_tee_iter_next\<close> and, as for an element read from
  the source, shares it with the first sibling, which has handed it out already: the
  first sibling hands it out a second time.
\<close>

lemma tee_pending_element_handed_out_twice:
  "ts_seen0 (tee_run array_iter_next [call0 False, call1 True, call0 True]
     (tee_of (array_of [1, 2, 3 :: nat]) 0)) = [1, 1]
   \<and> ts_seen1 (tee_run array_iter_next [call0 False, call1 True, call0 True]
     (tee_of (array_of [1, 2, 3 :: nat]) 0)) = [1]"
  by (simp add: tee_call_next_def tee_iter_next_def tee_iter_next_pending_def tee_iter_share_def
      rbh_queue_push_def array_iter_next_def array_of_def tee_of_def call0_def call1_def seen_def)

text \<open>
  C6. The call whose share fails does not signal a failure: on the source \<open>[1, 2, 3]\<close>
  it returns the element \<open>1\<close> and leaves \<open>errno\<close> at 0; the element is stored in the
  \<open>next\<close> slot of the other sibling.
\<close>

theorem tee_share_failure_returns_element:
  "tee_iter_next array_iter_next True False \<lparr>tee_queue = [], tee_next = None\<rparr>
     (Some \<lparr>tee_queue = [], tee_next = None\<rparr>) (array_of [1, 2, 3 :: nat]) 0 =
   (Some 1, \<lparr>tee_queue = [], tee_next = None\<rparr>, Some \<lparr>tee_queue = [], tee_next = Some 1\<rparr>,
    (array_of [1, 2, 3])\<lparr>arr_index := 1\<rparr>, 0)"
  by (simp add: tee_iter_next_def tee_iter_next_pending_def tee_iter_share_def
      rbh_queue_push_def array_iter_next_def array_of_def)

text \<open>
  C6, as the code has it. A sibling with an empty queue reads \<open>x\<close> from the source
  while nothing is pending. If the push for the other sibling finds no memory, the call
  stores \<open>x\<close> in the other sibling's \<open>next\<close> slot and returns \<open>x\<close> with \<open>errno\<close> as the
  caller held it. The next call on the same sibling retries the share first: if the push
  fails again, the call returns NULL with \<open>ENOMEM\<close>, reads nothing from the source and
  leaves \<open>x\<close> in the slot; if it succeeds, the call goes on exactly as if \<open>x\<close> had been
  queued at once, the slot being empty again. A call on the other sibling, its queue being
  empty, returns \<open>x\<close> from its slot, empties the slot and does not read the source. The
  slot is written only when it is empty, so at most one element is pending per sibling.
\<close>

theorem tee_deferred_share:
  assumes "tee_queue tee = []" and "tee_next tee = None" and "tee_next clone = None"
    and "subiter_next subiter 0 = (Some x, subiter', errno0)"
    and "pending = clone\<lparr>tee_next := Some x\<rparr>"
  shows "tee_iter_next subiter_next retry_ok False tee (Some clone) subiter errno =
       (Some x, tee, Some pending, subiter', errno)
     \<and> tee_iter_next subiter_next False share_ok tee (Some pending) subiter' errno =
       (None, tee, Some pending, subiter', ENOMEM)
     \<and> tee_iter_next subiter_next True share_ok tee (Some pending) subiter' errno =
       tee_iter_next subiter_next True share_ok tee
         (Some (clone\<lparr>tee_queue := tee_queue clone @ [Some x]\<rparr>)) subiter' errno
     \<and> (tee_queue clone = [] \<longrightarrow>
          (case tee_iter_next subiter_next retry_ok share_ok pending (Some tee) subiter' errno of
             (r, pending', tee', subiter'', errno') \<Rightarrow>
               r = Some x \<and> tee_next pending' = None \<and> subiter'' = subiter' \<and> errno' = errno))"
  using assms
  by (auto simp: tee_iter_next_def tee_iter_next_pending_def tee_iter_share_def
      rbh_queue_push_def split: list.splits prod.splits if_splits)

theorem tee_deferred_share_witness:
  "array_iter_next (array_of [1, 2, 3 :: nat]) 0 = (Some 1, (array_of [1, 2, 3])\<lparr>arr_index := 1\<rparr>, 0)
   \<and> tee_iter_next array_iter_next False True \<lparr>tee_queue = [], tee_next = None\<rparr>
        (Some \<lparr>tee_queue = [], tee_next = Some 1\<rparr>) ((array_of [1, 2, 3 :: nat])\<lparr>arr_index := 1\<rparr>) 7 =
       (None, \<lparr>tee_queue = [], tee_next = None\<rparr>, Some \<lparr>tee_queue = [], tee_next = Some 1\<rparr>,
        (array_of [1, 2, 3])\<lparr>arr_index := 1\<rparr>, ENOMEM)"
proof -
  have n: "array_iter_next (array_of [1, 2, 3 :: nat]) 0 =
      (Some 1, (array_of [1, 2, 3])\<lparr>arr_index := 1\<rparr>, 0)"
    by (simp add: array_iter_next_def array_of_def)
  have p: "\<lparr>tee_queue = [], tee_next = Some (1 :: nat)\<rparr> =
      \<lparr>tee_queue = [], tee_next = None\<rparr>\<lparr>tee_next := Some 1\<rparr>"
    by simp
  from tee_deferred_share[where tee = "\<lparr>tee_queue = [], tee_next = None\<rparr>"
      and clone = "\<lparr>tee_queue = [], tee_next = None\<rparr>"
      and pending = "\<lparr>tee_queue = [], tee_next = Some 1\<rparr>"
      and subiter_next = array_iter_next and subiter = "array_of [1, 2, 3 :: nat]"
      and subiter' = "(array_of [1, 2, 3 :: nat])\<lparr>arr_index := 1\<rparr>" and x = 1 and ?errno0.0 = 0
      and retry_ok = True and share_ok = True and errno = 7] n p
  have "tee_iter_next array_iter_next False True \<lparr>tee_queue = [], tee_next = None\<rparr>
        (Some \<lparr>tee_queue = [], tee_next = Some 1\<rparr>) ((array_of [1, 2, 3 :: nat])\<lparr>arr_index := 1\<rparr>) 7 =
       (None, \<lparr>tee_queue = [], tee_next = None\<rparr>, Some \<lparr>tee_queue = [], tee_next = Some 1\<rparr>,
        (array_of [1, 2, 3])\<lparr>arr_index := 1\<rparr>, ENOMEM)"
    by simp
  with n show ?thesis by (simp only: simp_thms)
qed

section \<open>Properties of the root query\<close>

lemma edge_rows:
  assumes "root_semantics env"
  shows "map (\<lambda>x. the (fsentry_from_bson x))
           (filter (qe_matches env ROOT_FILTER) (map (\<lambda>edge. d\<lparr>doc_ns := [edge]\<rparr>) es)) =
         filter (\<lambda>e. fsentry_parent_id e = [])
           (map (\<lambda>(parent_id, name).
              \<lparr>fsentry_id = doc_id d, fsentry_parent_id = parent_id, fsentry_name = name\<rparr>) es)"
proof (induction es)
  case Nil
  show ?case by simp
next
  case (Cons edge es)
  obtain p n where e: "edge = (p, n)" by (cases edge)
  from assms have "qe_matches env ROOT_FILTER (d\<lparr>doc_ns := [(p, n)]\<rparr>) = (p = [])"
    by (simp add: root_semantics_def)
  with Cons.IH e show ?case
    by (simp add: fsentry_from_bson_def)
qed

lemma unwound_rows:
  assumes "root_semantics env"
  shows "map (\<lambda>x. the (fsentry_from_bson x))
           (filter (qe_matches env ROOT_FILTER)
              (concat (map (\<lambda>d. map (\<lambda>edge. d\<lparr>doc_ns := [edge]\<rparr>) (doc_ns d)) entries))) =
         roots entries"
proof (induction entries)
  case Nil
  show ?case by (simp add: roots_def namespace_rows_def)
next
  case (Cons d entries)
  from Cons.IH edge_rows[OF assms, of d "doc_ns d"] show ?case
    by (simp add: roots_def namespace_rows_def)
qed

lemma unwound_singleton:
  "x \<in> set (concat (map (\<lambda>d. map (\<lambda>edge. d\<lparr>doc_ns := [edge]\<rparr>) (doc_ns d)) entries)) \<Longrightarrow>
   fsentry_from_bson x = Some (the (fsentry_from_bson x))"
  by (auto simp: fsentry_from_bson_def)

lemma root_cursor:
  assumes "query_succeeds env"
  shows "mongo_backend_filter_fsentries env entries ROOT_FILTER fsentry_mask statx_mask errno =
    (Some \<lparr>cursor_docs = filter (qe_matches env ROOT_FILTER)
              (concat (map (\<lambda>d. map (\<lambda>edge. d\<lparr>doc_ns := [edge]\<rparr>) (doc_ns d)) entries)),
            cursor_error = 0\<rparr>, errno)"
  using assms
  by (simp add: mongo_backend_filter_fsentries_def query_succeeds_def ROOT_FILTER_def
      comparison_valid_def bson_pipeline_from_filter_def mongoc_collection_aggregate_def)

text \<open>
  C9. \<open>ROOT_FILTER\<close> is the equality of the parent-id field with a binary value of
  length zero. When the query runs without a failure of the driver, and whatever the two
  masks are: if exactly one row of the store has an empty parent identifier, \<open>root\<close>
  returns that entry and leaves \<open>errno\<close> alone; if no row has, it returns NULL with
  \<open>ENOENT\<close>.
\<close>

theorem root_query:
  assumes "query_succeeds env" and "root_semantics env"
  shows "ROOT_FILTER = Compare RBH_FOP_EQUAL RBH_FF_PARENT_ID (RBH_VT_BINARY [])
     \<and> (roots entries = [root] \<longrightarrow>
          mongo_root env entries fsentry_mask statx_mask errno = (Some root, errno))
     \<and> (roots entries = [] \<longrightarrow>
          mongo_root env entries fsentry_mask statx_mask errno = (None, ENOENT))"
proof (intro conjI impI)
  show "ROOT_FILTER = Compare RBH_FOP_EQUAL RBH_FF_PARENT_ID (RBH_VT_BINARY [])"
    by (rule ROOT_FILTER_def)
next
  let ?docs = "filter (qe_matches env ROOT_FILTER)
      (concat (map (\<lambda>d. map (\<lambda>edge. d\<lparr>doc_ns := [edge]\<rparr>) (doc_ns d)) entries))"
  assume "roots entries = [root]"
  with unwound_rows[OF assms(2), of entries]
  obtain d where d: "?docs = [d]" "the (fsentry_from_bson d) = root"
    by (auto simp: map_eq_Cons_conv)
  then have "d \<in> set ?docs" by simp
  then have "fsentry_from_bson d = Some root"
    using unwound_singleton[of d entries] d(2) by simp
  with d(1) show "mongo_root env entries fsentry_mask statx_mask errno = (Some root, errno)"
    by (simp add: mongo_root_def rbh_backend_filter_one_def root_cursor[OF assms(1)]
        mongo_iter_next_def mongoc_cursor_next_def)
next
  let ?docs = "filter (qe_matches env ROOT_FILTER)
      (concat (map (\<lambda>d. map (\<lambda>edge. d\<lparr>doc_ns := [edge]\<rparr>) (doc_ns d)) entries))"
  assume "roots entries = []"
  with unwound_rows[OF assms(2), of entries] have "?docs = []"
    by simp
  then show "mongo_root env entries fsentry_mask statx_mask errno = (None, ENOENT)"
    by (simp add: mongo_root_def rbh_backend_filter_one_def root_cursor[OF assms(1)]
        mongo_iter_next_def mongoc_cursor_next_def)
qed

theorem root_query_witness:
  "query_succeeds S7_env \<and> root_semantics S7_env
   \<and> roots S7_store = [\<lparr>fsentry_id = ''R'', fsentry_parent_id = [], fsentry_name = []\<rparr>]
   \<and> mongo_root S7_env S7_store 3 0 5 =
       (Some \<lparr>fsentry_id = ''R'', fsentry_parent_id = [], fsentry_name = []\<rparr>, 5)
   \<and> mongo_root S7_env [] 3 0 5 = (None, ENOENT)"
proof -
  have q: "query_succeeds S7_env"
    by (simp add: query_succeeds_def S7_env_def)
  have r: "root_semantics S7_env"
    by (simp add: root_semantics_def S7_env_def S7_matches_def ROOT_FILTER_def)
  have s: "roots S7_store = [\<lparr>fsentry_id = ''R'', fsentry_parent_id = [], fsentry_name = []\<rparr>]"
    by (simp add: roots_def namespace_rows_def S7_store_def)
  have e: "roots [] = []"
    by (simp add: roots_def namespace_rows_def)
  from root_query[OF q r, of S7_store
      "\<lparr>fsentry_id = ''R'', fsentry_parent_id = [], fsentry_name = []\<rparr>" 3 0 5] s
  have a: "mongo_root S7_env S7_store 3 0 5 =
      (Some \<lparr>fsentry_id = ''R'', fsentry_parent_id = [], fsentry_name = []\<rparr>, 5)"
    by blast
  from root_query[OF q r, of "[]" "\<lparr>fsentry_id = [], fsentry_parent_id = [], fsentry_name = []\<rparr>" 3 0 5] e
  have b: "mongo_root S7_env [] 3 0 5 = (None, ENOENT)"
    by blast
  from q r s a b show ?thesis by (intro conjI)
qed

end
